theory Spec2Isabelle
  imports Main "HOL-Library.Word"
begin

section \<open>Strings of UTF-16 code units\<close>

text \<open>
  A JavaScript string is a sequence of 16-bit code units. \<open>lit\<close> embeds an ASCII
  literal; code units outside ASCII are written as numbers.
\<close>

type_synonym jschar = "16 word"
type_synonym jsstring = "jschar list"

definition lit :: "string \<Rightarrow> jsstring" where
  "lit s = map (\<lambda>c. of_nat (of_char c)) s"

definition LF :: jschar where "LF = 0x0A"
definition CR :: jschar where "CR = 0x0D"

text \<open>
  The code units that \<open>String.prototype.trim\<close> removes: the WhiteSpace and
  LineTerminator productions of ECMAScript.
\<close>

definition isWhiteSpace :: "jschar \<Rightarrow> bool" where
  "isWhiteSpace c \<longleftrightarrow>
     c = 0x09 \<or> c = 0x0A \<or> c = 0x0B \<or> c = 0x0C \<or> c = 0x0D \<or> c = 0x20 \<or> c = 0xA0 \<or>
     c = 0x1680 \<or> (0x2000 \<le> c \<and> c \<le> 0x200A) \<or> c = 0x2028 \<or> c = 0x2029 \<or>
     c = 0x202F \<or> c = 0x205F \<or> c = 0x3000 \<or> c = 0xFEFF"

definition trim :: "jsstring \<Rightarrow> jsstring" where
  "trim s = rev (dropWhile isWhiteSpace (rev (dropWhile isWhiteSpace s)))"

definition startsWith :: "jsstring \<Rightarrow> jsstring \<Rightarrow> bool" where
  "startsWith s p \<longleftrightarrow> take (length p) s = p"

definition endsWith :: "jsstring \<Rightarrow> jsstring \<Rightarrow> bool" where
  "endsWith s p \<longleftrightarrow> length p \<le> length s \<and> drop (length s - length p) s = p"

text \<open>
  \<open>s.split(/\r?\n/)\<close>: the text is cut at every LF, and a CR directly before the
  LF belongs to the separator. The second argument collects the current line
  in reverse.
\<close>

fun splitLines :: "jsstring \<Rightarrow> jsstring \<Rightarrow> jsstring list" where
  "splitLines cur [] = [rev cur]"
| "splitLines cur [c] = (if c = LF then [rev cur, []] else [rev (c # cur)])"
| "splitLines cur (c # d # cs) =
     (if c = LF then rev cur # splitLines [] (d # cs)
      else if c = CR \<and> d = LF then rev cur # splitLines [] cs
      else splitLines (c # cur) (d # cs))"

text \<open>\<open>lines.join("\n")\<close>\<close>

fun joinLines :: "jsstring list \<Rightarrow> jsstring" where
  "joinLines [] = []"
| "joinLines [l] = l"
| "joinLines (l # m # ls) = l @ LF # joinLines (m # ls)"

subsection \<open>The fence pattern of \<open>stripCodeFence\<close>\<close>

definition fence :: jsstring where
  "fence = [0x60, 0x60, 0x60]"

text \<open>
  The tail \<open>([\s\S]*?)\n```\<close> of the pattern: the lazy group takes the text up to
  the first LF that three backticks follow.
\<close>

fun findClose :: "jsstring \<Rightarrow> jsstring option" where
  "findClose [] = None"
| "findClose (c # cs) =
     (if startsWith (c # cs) (LF # fence) then Some []
      else map_option ((#) c) (findClose cs))"

text \<open>
  \<open>(?:json)?\<close> under the flag \<open>i\<close>: the four letters in either case. Without the
  flag \<open>u\<close> no code unit outside ASCII is folded onto an ASCII letter.
\<close>

definition jsonTag :: "jsstring \<Rightarrow> jsstring option" where
  "jsonTag s =
     (case s of
        a # b # c # d # r \<Rightarrow>
          if (a = 0x6A \<or> a = 0x4A) \<and> (b = 0x73 \<or> b = 0x53) \<and>
             (c = 0x6F \<or> c = 0x4F) \<and> (d = 0x6E \<or> d = 0x4E)
          then Some r else None
      | _ \<Rightarrow> None)"

definition afterTag :: "jsstring \<Rightarrow> jsstring option" where
  "afterTag s = (case s of [] \<Rightarrow> None | c # cs \<Rightarrow> if c = LF then findClose cs else None)"

text \<open>The pattern tried at the start of \<open>s\<close>: with the tag first, then without it.\<close>

definition fenceAt :: "jsstring \<Rightarrow> jsstring option" where
  "fenceAt s =
     (if startsWith s fence then
        (case (case jsonTag (drop 3 s) of None \<Rightarrow> None | Some r \<Rightarrow> afterTag r) of
           Some m \<Rightarrow> Some m
         | None \<Rightarrow> afterTag (drop 3 s))
      else None)"

text \<open>
  \<open>trimmed.match(/```(?:json)?\n([\s\S]*?)\n```/i)\<close>: the leftmost position where
  the pattern matches; the result is capture group 1.
\<close>

fun fenceMatch :: "jsstring \<Rightarrow> jsstring option" where
  "fenceMatch [] = None"
| "fenceMatch (c # cs) =
     (case fenceAt (c # cs) of Some m \<Rightarrow> Some m | None \<Rightarrow> fenceMatch cs)"

text \<open>
  \<open>stripCodeFence\<close>. \<open>lines.shift()\<close> and \<open>lines.pop()\<close> leave an empty array
  empty, as \<open>tl\<close> and \<open>butlast\<close> do.
\<close>

definition stripCodeFence :: "jsstring \<Rightarrow> jsstring" where
  "stripCodeFence input =
     (let trimmed = trim input in
      if startsWith trimmed fence \<and> endsWith trimmed fence then
        trim (joinLines (butlast (tl (splitLines [] trimmed))))
      else
        (case fenceMatch trimmed of
           Some m \<Rightarrow> trim m
         | None \<Rightarrow> trimmed))"

section \<open>JSON values and \<open>JSON.parse\<close>\<close>

text \<open>
  A number keeps the decimal the text denotes: sign, digits and decimal
  exponent, so \<open>Dec neg m e\<close> stands for the double nearest to
  \<open>(-1)^neg * m * 10^e\<close>. An object keeps its members in the order of the text;
  of two members with one key the later one is the property's value.
\<close>

datatype number = Dec bool nat int

datatype json =
    JNull
  | JBool bool
  | JNumber number
  | JString jsstring
  | JArray "json list"
  | JObject "(jsstring \<times> json) list"

datatype token =
    TLBrace | TRBrace | TLBrack | TRBrack | TColon | TComma
  | TString jsstring | TNumber number | TTrue | TFalse | TNull

datatype keyword = KTrue | KFalse | KNull

fun kwText :: "keyword \<Rightarrow> jsstring" where
  "kwText KTrue = lit ''true''"
| "kwText KFalse = lit ''false''"
| "kwText KNull = lit ''null''"

fun kwToken :: "keyword \<Rightarrow> token" where
  "kwToken KTrue = TTrue"
| "kwToken KFalse = TFalse"
| "kwToken KNull = TNull"

text \<open>
  The lexer reads one code unit at a time. Its mode says what it is inside of:
  a string (the characters so far in reverse), an escape, the hex digits of
  \<open>\u\<close>, a keyword (with the number of letters read), or a part of a number
  (sign, digits so far, count of fraction digits, exponent sign and digits).
\<close>

datatype mode =
    MStart
  | MStr jsstring
  | MEsc jsstring
  | MHex jsstring nat jschar
  | MLit keyword nat
  | MMinus
  | MZero bool
  | MInt bool nat
  | MDot bool nat
  | MFrac bool nat nat
  | MExp bool nat nat
  | MExpSign bool nat nat bool
  | MExpDig bool nat nat bool nat

definition isDigit :: "jschar \<Rightarrow> bool" where
  "isDigit c \<longleftrightarrow> 0x30 \<le> c \<and> c \<le> 0x39"

definition digitVal :: "jschar \<Rightarrow> nat" where
  "digitVal c = unat c - 0x30"

definition hexVal :: "jschar \<Rightarrow> jschar option" where
  "hexVal c =
     (if 0x30 \<le> c \<and> c \<le> 0x39 then Some (c - 0x30)
      else if 0x41 \<le> c \<and> c \<le> 0x46 then Some (c - 0x37)
      else if 0x61 \<le> c \<and> c \<le> 0x66 then Some (c - 0x57)
      else None)"

text \<open>JSON's own white space: space, tab, line feed, carriage return.\<close>

definition isJsonWs :: "jschar \<Rightarrow> bool" where
  "isJsonWs c \<longleftrightarrow> c = 0x20 \<or> c = 0x09 \<or> c = 0x0A \<or> c = 0x0D"

definition lexStart :: "jschar \<Rightarrow> (token list \<times> mode) option" where
  "lexStart c =
     (if isJsonWs c then Some ([], MStart)
      else if c = 0x7B then Some ([TLBrace], MStart)
      else if c = 0x7D then Some ([TRBrace], MStart)
      else if c = 0x5B then Some ([TLBrack], MStart)
      else if c = 0x5D then Some ([TRBrack], MStart)
      else if c = 0x3A then Some ([TColon], MStart)
      else if c = 0x2C then Some ([TComma], MStart)
      else if c = 0x22 then Some ([], MStr [])
      else if c = 0x2D then Some ([], MMinus)
      else if c = 0x30 then Some ([], MZero False)
      else if isDigit c then Some ([], MInt False (digitVal c))
      else if c = 0x74 then Some ([], MLit KTrue 1)
      else if c = 0x66 then Some ([], MLit KFalse 1)
      else if c = 0x6E then Some ([], MLit KNull 1)
      else None)"

text \<open>A number ends at the first code unit that cannot continue it.\<close>

definition emit :: "token \<Rightarrow> jschar \<Rightarrow> (token list \<times> mode) option" where
  "emit t c = (case lexStart c of None \<Rightarrow> None | Some (ts, m) \<Rightarrow> Some (t # ts, m))"

definition expOf :: "bool \<Rightarrow> nat \<Rightarrow> nat \<Rightarrow> int" where
  "expOf es ev k = (if es then - int ev else int ev) - int k"

fun lexStep :: "mode \<Rightarrow> jschar \<Rightarrow> (token list \<times> mode) option" where
  "lexStep MStart c = lexStart c"
| "lexStep (MStr acc) c =
     (if c = 0x22 then Some ([TString (rev acc)], MStart)
      else if c = 0x5C then Some ([], MEsc acc)
      else if c < 0x20 then None
      else Some ([], MStr (c # acc)))"
| "lexStep (MEsc acc) c =
     (if c = 0x22 \<or> c = 0x5C \<or> c = 0x2F then Some ([], MStr (c # acc))
      else if c = 0x62 then Some ([], MStr (0x08 # acc))
      else if c = 0x66 then Some ([], MStr (0x0C # acc))
      else if c = 0x6E then Some ([], MStr (0x0A # acc))
      else if c = 0x72 then Some ([], MStr (0x0D # acc))
      else if c = 0x74 then Some ([], MStr (0x09 # acc))
      else if c = 0x75 then Some ([], MHex acc 4 0)
      else None)"
| "lexStep (MHex acc n v) c =
     (case hexVal c of
        None \<Rightarrow> None
      | Some h \<Rightarrow>
          if n \<le> 1 then Some ([], MStr ((v * 16 + h) # acc))
          else Some ([], MHex acc (n - 1) (v * 16 + h)))"
| "lexStep (MLit k i) c =
     (if i < length (kwText k) \<and> c = kwText k ! i then
        (if Suc i = length (kwText k) then Some ([kwToken k], MStart)
         else Some ([], MLit k (Suc i)))
      else None)"
| "lexStep MMinus c =
     (if c = 0x30 then Some ([], MZero True)
      else if isDigit c then Some ([], MInt True (digitVal c))
      else None)"
| "lexStep (MZero neg) c =
     (if c = 0x2E then Some ([], MDot neg 0)
      else if c = 0x65 \<or> c = 0x45 then Some ([], MExp neg 0 0)
      else emit (TNumber (Dec neg 0 0)) c)"
| "lexStep (MInt neg m) c =
     (if isDigit c then Some ([], MInt neg (10 * m + digitVal c))
      else if c = 0x2E then Some ([], MDot neg m)
      else if c = 0x65 \<or> c = 0x45 then Some ([], MExp neg m 0)
      else emit (TNumber (Dec neg m 0)) c)"
| "lexStep (MDot neg m) c =
     (if isDigit c then Some ([], MFrac neg (10 * m + digitVal c) 1) else None)"
| "lexStep (MFrac neg m k) c =
     (if isDigit c then Some ([], MFrac neg (10 * m + digitVal c) (Suc k))
      else if c = 0x65 \<or> c = 0x45 then Some ([], MExp neg m k)
      else emit (TNumber (Dec neg m (- int k))) c)"
| "lexStep (MExp neg m k) c =
     (if c = 0x2B then Some ([], MExpSign neg m k False)
      else if c = 0x2D then Some ([], MExpSign neg m k True)
      else if isDigit c then Some ([], MExpDig neg m k False (digitVal c))
      else None)"
| "lexStep (MExpSign neg m k es) c =
     (if isDigit c then Some ([], MExpDig neg m k es (digitVal c)) else None)"
| "lexStep (MExpDig neg m k es ev) c =
     (if isDigit c then Some ([], MExpDig neg m k es (10 * ev + digitVal c))
      else emit (TNumber (Dec neg m (expOf es ev k))) c)"

text \<open>At the end of the text only a finished token may be open.\<close>

fun lexFinish :: "mode \<Rightarrow> token list option" where
  "lexFinish MStart = Some []"
| "lexFinish (MZero neg) = Some [TNumber (Dec neg 0 0)]"
| "lexFinish (MInt neg m) = Some [TNumber (Dec neg m 0)]"
| "lexFinish (MFrac neg m k) = Some [TNumber (Dec neg m (- int k))]"
| "lexFinish (MExpDig neg m k es ev) = Some [TNumber (Dec neg m (expOf es ev k))]"
| "lexFinish _ = None"

fun lexer :: "mode \<Rightarrow> jsstring \<Rightarrow> token list option" where
  "lexer m [] = lexFinish m"
| "lexer m (c # cs) =
     (case lexStep m c of
        None \<Rightarrow> None
      | Some (ts, m') \<Rightarrow> map_option ((@) ts) (lexer m' cs))"

text \<open>
  The parser is a pushdown automaton over the tokens. A frame is a container
  whose next element is being read.
\<close>

datatype frame =
    FArr "json list"
  | FObj "(jsstring \<times> json) list" jsstring

datatype pstate =
    SValue "frame list"
  | SArrOpen "frame list"
  | SObjOpen "frame list"
  | SObjKey "(jsstring \<times> json) list" "frame list"
  | SColon "(jsstring \<times> json) list" jsstring "frame list"
  | SArrAfter "json list" "frame list"
  | SObjAfter "(jsstring \<times> json) list" "frame list"
  | SDone json

fun deliver :: "json \<Rightarrow> frame list \<Rightarrow> pstate" where
  "deliver v [] = SDone v"
| "deliver v (FArr es # st) = SArrAfter (es @ [v]) st"
| "deliver v (FObj ms k # st) = SObjAfter (ms @ [(k, v)]) st"

fun pvalue :: "frame list \<Rightarrow> token \<Rightarrow> pstate option" where
  "pvalue st TLBrace = Some (SObjOpen st)"
| "pvalue st TLBrack = Some (SArrOpen st)"
| "pvalue st (TString s) = Some (deliver (JString s) st)"
| "pvalue st (TNumber n) = Some (deliver (JNumber n) st)"
| "pvalue st TTrue = Some (deliver (JBool True) st)"
| "pvalue st TFalse = Some (deliver (JBool False) st)"
| "pvalue st TNull = Some (deliver JNull st)"
| "pvalue st _ = None"

fun pstep :: "pstate \<Rightarrow> token \<Rightarrow> pstate option" where
  "pstep (SValue st) t = pvalue st t"
| "pstep (SArrOpen st) t =
     (if t = TRBrack then Some (deliver (JArray []) st) else pvalue (FArr [] # st) t)"
| "pstep (SObjOpen st) t =
     (case t of
        TRBrace \<Rightarrow> Some (deliver (JObject []) st)
      | TString k \<Rightarrow> Some (SColon [] k st)
      | _ \<Rightarrow> None)"
| "pstep (SObjKey ms st) t =
     (case t of TString k \<Rightarrow> Some (SColon ms k st) | _ \<Rightarrow> None)"
| "pstep (SColon ms k st) t =
     (if t = TColon then Some (SValue (FObj ms k # st)) else None)"
| "pstep (SArrAfter es st) t =
     (if t = TComma then Some (SValue (FArr es # st))
      else if t = TRBrack then Some (deliver (JArray es) st)
      else None)"
| "pstep (SObjAfter ms st) t =
     (if t = TComma then Some (SObjKey ms st)
      else if t = TRBrace then Some (deliver (JObject ms) st)
      else None)"
| "pstep (SDone v) t = None"

fun prun :: "pstate \<Rightarrow> token list \<Rightarrow> pstate option" where
  "prun s [] = Some s"
| "prun s (t # ts) = (case pstep s t of None \<Rightarrow> None | Some s' \<Rightarrow> prun s' ts)"

definition parseTokens :: "token list \<Rightarrow> json option" where
  "parseTokens ts = (case prun (SValue []) ts of Some (SDone v) \<Rightarrow> Some v | _ \<Rightarrow> None)"

text \<open>\<open>JSON.parse\<close>; \<open>None\<close> is the SyntaxError it throws.\<close>

definition JSON_parse :: "jsstring \<Rightarrow> json option" where
  "JSON_parse s = (case lexer MStart s of None \<Rightarrow> None | Some ts \<Rightarrow> parseTokens ts)"

section \<open>Reading values the way the script does\<close>

text \<open>
  \<open>x.k\<close> for the property names the program reads (\<open>output\<close>, \<open>error\<close>, \<open>meta\<close>,
  \<open>itinerary\<close>): an own property of an object; neither arrays nor primitives
  have them. \<open>None\<close> is \<open>undefined\<close>.
\<close>

fun getProp :: "json \<Rightarrow> jsstring \<Rightarrow> json option" where
  "getProp (JObject ms) k = map_of (rev ms) k"
| "getProp _ k = None"

text \<open>
  A number is falsy when its double is zero: the decimal is zero, or it is at
  most \<open>2^-1075\<close> in magnitude and rounds to zero.
\<close>

fun roundsToZero :: "number \<Rightarrow> bool" where
  "roundsToZero (Dec neg m e) \<longleftrightarrow> m = 0 \<or> (e < 0 \<and> m * 2 ^ 1075 \<le> 10 ^ nat (- e))"

fun truthy :: "json \<Rightarrow> bool" where
  "truthy JNull = False"
| "truthy (JBool b) = b"
| "truthy (JNumber n) = (\<not> roundsToZero n)"
| "truthy (JString s) = (s \<noteq> [])"
| "truthy (JArray es) = True"
| "truthy (JObject ms) = True"

fun truthyU :: "json option \<Rightarrow> bool" where
  "truthyU None = False"
| "truthyU (Some v) = truthy v"

text \<open>\<open>typeof x === "object"\<close>\<close>

fun typeofObject :: "json \<Rightarrow> bool" where
  "typeofObject JNull = True"
| "typeofObject (JArray es) = True"
| "typeofObject (JObject ms) = True"
| "typeofObject _ = False"

fun isArray :: "json option \<Rightarrow> bool" where
  "isArray (Some (JArray es)) = True"
| "isArray _ = False"

section \<open>The payload normalizer\<close>

definition isItinerary :: "json \<Rightarrow> bool" where
  "isItinerary x =
     (if \<not> truthy x \<or> \<not> typeofObject x then False
      else if \<not> truthyU (getProp x (lit ''meta'')) \<or> \<not> truthyU (getProp x (lit ''itinerary''))
        then False
      else if \<not> isArray (getProp x (lit ''itinerary'')) then False
      else True)"

definition safeParseItinerary :: "jsstring \<Rightarrow> json option" where
  "safeParseItinerary raw =
     (case JSON_parse (stripCodeFence raw) of
        None \<Rightarrow> None
      | Some obj \<Rightarrow> if isItinerary obj then Some obj else None)"

section \<open>The chat controller\<close>

datatype Role = User | Assistant | Error

record ChatMessage =
  msgId :: jsstring
  role :: Role
  content :: jsstring
  itinerary :: "json option"

text \<open>
  What the page computes with library routines whose results the claims do not
  depend on: \<open>JSON.stringify(x, null, 2)\<close>, the conversion of a value that is
  not a string to a string, the markdown reduction \<open>stripMarkdown\<close>, the body of
  \<open>summarizeItinerary\<close> for a payload (it formats dates for the locale, and
  throws a TypeError, here \<open>Inl\<close> with the message, when a day or an activity
  is \<open>null\<close>), and the \<open>innerText\<close> of the scroll container, which shows the
  messages and, while \<open>loading\<close>, the typing indicator.
\<close>

record platform =
  JSON_stringify :: "json \<Rightarrow> jsstring"
  ToString :: "json \<Rightarrow> jsstring"
  stripMarkdown :: "jsstring \<Rightarrow> jsstring"
  summarizeBody :: "json \<Rightarrow> jsstring + jsstring"
  innerText :: "ChatMessage list \<Rightarrow> bool \<Rightarrow> jsstring"

text \<open>
  The state of \<open>Home\<close>: the React state, the refs, the two timers, and what has
  been handed to the network and to the speech engine. \<open>listening\<close> stands for
  the state and for \<open>listeningRef\<close>, which an effect keeps equal to it.
  \<open>pendingSpeak\<close> is the timer of \<open>pendingSpeakRef\<close> with the text it will read
  and its delay in milliseconds; \<open>typingTimer\<close> is the 800 ms timer of the
  read-as-you-type effect; \<open>inflight\<close> is the value of \<open>autoRead\<close> that the
  suspended \<open>send\<close> has captured.
\<close>

record home =
  messages :: "ChatMessage list"
  message :: jsstring
  loading :: bool
  autoRead :: bool
  ttsSupported :: bool
  sttSupported :: bool
  listening :: bool
  readDelayAfterMic :: bool
  pendingSpeak :: "(jsstring \<times> nat) option"
  typingTimer :: "jsstring option"
  speaking :: bool
  spoken :: "jsstring list"
  requests :: "jsstring list"
  inflight :: "bool option"

datatype response =
    FetchFailed jsstring
  | Response bool nat "json option"

text \<open>\<open>speak\<close> and \<open>cancel\<close> of \<open>useTTS\<close>\<close>

definition speak :: "jsstring \<Rightarrow> home \<Rightarrow> home" where
  "speak text s =
     (if \<not> ttsSupported s then s
      else if text = [] then s
      else s\<lparr>speaking := True, spoken := spoken s @ [text]\<rparr>)"

definition cancel :: "home \<Rightarrow> home" where
  "cancel s = (if \<not> ttsSupported s then s else s\<lparr>speaking := False\<rparr>)"

function decimal :: "nat \<Rightarrow> jsstring" where
  "decimal n = (if n < 10 then [0x30 + of_nat n] else decimal (n div 10) @ [0x30 + of_nat (n mod 10)])"
  by pat_completeness auto
termination
  by (relation "measure id") auto

text \<open>The first part of \<open>send\<close>, up to the request.\<close>

definition send_begin :: "jsstring \<Rightarrow> jsstring option \<Rightarrow> home \<Rightarrow> home" where
  "send_begin uuid textOverride s =
     (let text = trim (case textOverride of Some t \<Rightarrow> t | None \<Rightarrow> message s) in
      if text = [] \<or> loading s then s
      else s\<lparr>loading := True,
             messages := messages s @ [\<lparr>msgId = uuid, role = User, content = text, itinerary = None\<rparr>],
             message := [],
             requests := requests s @ [text],
             inflight := Some (autoRead s)\<rparr>)"

text \<open>\<open>data?.error ?? `Request failed (${res.status})`\<close> as the message of the Error\<close>

definition errorText :: "platform \<Rightarrow> json \<Rightarrow> nat \<Rightarrow> jsstring" where
  "errorText P data status =
     (case getProp data (lit ''error'') of
        None \<Rightarrow> lit ''Request failed ('' @ decimal status @ lit '')''
      | Some JNull \<Rightarrow> lit ''Request failed ('' @ decimal status @ lit '')''
      | Some (JString m) \<Rightarrow> m
      | Some v \<Rightarrow> ToString P v)"

text \<open>\<open>data?.output ?? data\<close>\<close>

definition outputOf :: "json \<Rightarrow> json" where
  "outputOf data =
     (case getProp data (lit ''output'') of
        None \<Rightarrow> data
      | Some JNull \<Rightarrow> data
      | Some v \<Rightarrow> v)"

text \<open>Lines 517 to 526 of \<open>send\<close>: the itinerary and the text of the reply.\<close>

definition interpretOutput :: "platform \<Rightarrow> json \<Rightarrow> json option \<times> jsstring" where
  "interpretOutput P output =
     (case output of
        JString str \<Rightarrow>
          (let itin = safeParseItinerary str in
           (itin, if itin \<noteq> None then [] else trim str))
      | _ \<Rightarrow>
          if truthy output \<and> typeofObject output then
            (let itin = (if isItinerary output then Some output else None) in
             (itin, if itin \<noteq> None then [] else JSON_stringify P output))
          else (None, []))"

definition caption :: jsstring where
  "caption = lit ''Here'' @ [0x2019] @ lit ''s your itinerary '' @ [0x2728]"

definition nextMsg :: "platform \<Rightarrow> jsstring \<Rightarrow> json \<Rightarrow> ChatMessage" where
  "nextMsg P uuid output =
     (let (itin, botText) = interpretOutput P output in
      \<lparr>msgId = uuid, role = Assistant,
       content = (if botText \<noteq> [] then botText else if itin \<noteq> None then caption else []),
       itinerary = itin\<rparr>)"

definition summarizeItinerary :: "platform \<Rightarrow> json option \<Rightarrow> jsstring + jsstring" where
  "summarizeItinerary P it = (case it of None \<Rightarrow> Inr [] | Some x \<Rightarrow> summarizeBody P x)"

fun joinSpeech :: "jsstring list \<Rightarrow> jsstring" where
  "joinSpeech [] = []"
| "joinSpeech [l] = l"
| "joinSpeech (l # m # ls) = l @ 0x20 # LF # joinSpeech (m # ls)"

text \<open>
  \<open>[stripMarkdown(nextMsg.content), summarizeItinerary(nextMsg.itinerary)]
  .filter(Boolean).join(" \n")\<close>
\<close>

definition toSpeak :: "platform \<Rightarrow> ChatMessage \<Rightarrow> jsstring + jsstring" where
  "toSpeak P m =
     (case summarizeItinerary P (itinerary m) of
        Inl e \<Rightarrow> Inl e
      | Inr sm \<Rightarrow> Inr (joinSpeech (filter (\<lambda>t. t \<noteq> []) [stripMarkdown P (content m), sm])))"

text \<open>
  The \<open>try\<close> block of \<open>send\<close> once \<open>fetch\<close> has settled. \<open>Inl (msg, s)\<close> is an
  Error with message \<open>msg\<close> thrown in state \<open>s\<close>. \<open>ar\<close> is the \<open>autoRead\<close> that
  the call has captured.
\<close>

definition send_try :: "platform \<Rightarrow> jsstring \<Rightarrow> bool \<Rightarrow> response \<Rightarrow> home \<Rightarrow> (jsstring \<times> home) + home" where
  "send_try P uuid ar resp s =
     (case resp of
        FetchFailed msg \<Rightarrow> Inl (msg, s)
      | Response ok status body \<Rightarrow>
          (let data = (case body of None \<Rightarrow> JObject [] | Some d \<Rightarrow> d) in
           if \<not> ok then Inl (errorText P data status, s)
           else
             (let m = nextMsg P uuid (outputOf data);
                  s1 = s\<lparr>messages := messages s @ [m]\<rparr>
              in if ar \<and> ttsSupported s1 then
                   (case toSpeak P m of
                      Inl e \<Rightarrow> Inl (e, s1)
                    | Inr t \<Rightarrow>
                        if t \<noteq> [] then
                          Inr (s1\<lparr>readDelayAfterMic := False,
                                  pendingSpeak := Some (t, if readDelayAfterMic s1 then 6000 else 0)\<rparr>)
                        else Inr s1)
                 else Inr s1)))"

text \<open>The \<open>catch\<close> block.\<close>

definition send_catch :: "jsstring \<Rightarrow> bool \<Rightarrow> jsstring \<Rightarrow> home \<Rightarrow> home" where
  "send_catch uuid ar msg s =
     (let s1 = s\<lparr>messages := messages s @
                  [\<lparr>msgId = uuid, role = Error, content = lit ''Error: '' @ msg, itinerary = None\<rparr>]\<rparr>
      in if ar \<and> ttsSupported s1 then speak (lit ''An error occurred: '' @ msg) s1 else s1)"

text \<open>
  The rest of \<open>send\<close> after the request: \<open>try\<close>, \<open>catch\<close>, \<open>finally\<close>. The two
  identifiers are the results of the two calls of \<open>crypto.randomUUID\<close>.
\<close>

definition send_settle :: "platform \<Rightarrow> jsstring \<Rightarrow> jsstring \<Rightarrow> bool \<Rightarrow> response \<Rightarrow> home \<Rightarrow> home" where
  "send_settle P uuid uuid' ar resp s =
     (let s1 = (case send_try P uuid ar resp s of
                  Inr s' \<Rightarrow> s'
                | Inl (msg, s') \<Rightarrow> send_catch uuid' ar msg s')
      in s1\<lparr>loading := False\<rparr>)"

section \<open>Speech: handlers, effects and timers\<close>

text \<open>The timer callback \<open>scheduleSpeak\<close> for the text \<open>t\<close>.\<close>

definition scheduleSpeak :: "jsstring \<Rightarrow> home \<Rightarrow> home" where
  "scheduleSpeak t s =
     (if listening s then s\<lparr>pendingSpeak := Some (t, 250)\<rparr>
      else (speak t s)\<lparr>pendingSpeak := None\<rparr>)"

definition toggleMic :: "home \<Rightarrow> home" where
  "toggleMic s =
     (if \<not> sttSupported s then s
      else
        (let s1 = (if \<not> listening s \<and> pendingSpeak s \<noteq> None then s\<lparr>pendingSpeak := None\<rparr> else s);
             s2 = cancel s1
         in if listening s2 then s2
            else s2\<lparr>message := [], listening := True\<rparr>))"

text \<open>The text of the utterance that \<open>rec.onend\<close> uses to unlock the engine: one space.\<close>

definition silentUtterance :: jsstring where
  "silentUtterance = [0x20]"

text \<open>
  \<open>rec.onend\<close>. Inside its \<open>try\<close> the silent utterance is handed to
  \<open>speechSynthesis.speak\<close> and \<open>speechSynthesis.cancel\<close> follows at once, which
  empties the engine's queue; without speech synthesis the \<open>try\<close> block throws
  and the \<open>catch\<close> ignores it. Then the pending read is cleared and the flag
  is set.
\<close>

definition onend :: "home \<Rightarrow> home" where
  "onend s =
     (let s1 = s\<lparr>listening := False\<rparr>;
          s2 = (if ttsSupported s1
                then (s1\<lparr>speaking := True, spoken := spoken s1 @ [silentUtterance]\<rparr>)\<lparr>speaking := False\<rparr>
                else s1)
      in s2\<lparr>pendingSpeak := None, readDelayAfterMic := True\<rparr>)"

text \<open>\<open>.replace(/\s{2,}/g, " ")\<close>: a run of two or more white-space characters becomes one space.\<close>

function collapseSpaces :: "jsstring \<Rightarrow> jsstring" where
  "collapseSpaces [] = []"
| "collapseSpaces (c # cs) =
     (if isWhiteSpace c then
        (if takeWhile isWhiteSpace cs = [] then c else 0x20) #
          collapseSpaces (dropWhile isWhiteSpace cs)
      else c # collapseSpaces cs)"
  by pat_completeness auto
termination
  by (relation "measure length") (auto simp: length_dropWhile_le less_Suc_eq_le)

definition readVisible :: "platform \<Rightarrow> home \<Rightarrow> home" where
  "readVisible P s =
     (let text = trim (collapseSpaces (innerText P (messages s) (loading s))) in speak text s)"

text \<open>
  The effects that run after a handler, in the order of the source: the
  read-as-you-type effect when \<open>message\<close>, \<open>autoRead\<close> or \<open>listening\<close> has
  changed (its cleanup clears the old timer), and the two effects on \<open>autoRead\<close>.
\<close>

definition effects :: "platform \<Rightarrow> home \<Rightarrow> home \<Rightarrow> home" where
  "effects P old new =
     (let s1 =
        (if (message new, autoRead new, listening new) \<noteq> (message old, autoRead old, listening old)
         then new\<lparr>typingTimer :=
                (if \<not> autoRead new \<or> listening new then None
                 else if readDelayAfterMic new then None
                 else if trim (message new) = [] then None
                 else Some (trim (message new)))\<rparr>
         else new)
      in if autoRead new \<noteq> autoRead old then
           (if \<not> autoRead new then cancel (s1\<lparr>pendingSpeak := None\<rparr>)
            else readVisible P s1)
         else s1)"

datatype event =
    Typed jsstring
  | SendClicked jsstring
  | Settled jsstring jsstring response
  | ToggleAutoRead bool
  | ToggleMic
  | RecResult jsstring
  | RecError
  | RecEnd
  | PendingTimer
  | TypingTimer
  | UtteranceEnd

fun handler :: "platform \<Rightarrow> event \<Rightarrow> home \<Rightarrow> home" where
  "handler P (Typed v) s = s\<lparr>message := v\<rparr>"
| "handler P (SendClicked uuid) s = send_begin uuid None s"
| "handler P (Settled uuid uuid' resp) s =
     (case inflight s of
        None \<Rightarrow> s
      | Some ar \<Rightarrow> (send_settle P uuid uuid' ar resp s)\<lparr>inflight := None\<rparr>)"
| "handler P (ToggleAutoRead b) s = (if \<not> b then cancel s else s)\<lparr>autoRead := b\<rparr>"
| "handler P ToggleMic s = toggleMic s"
| "handler P (RecResult t) s = s\<lparr>message := t\<rparr>"
| "handler P RecError s = s\<lparr>listening := False\<rparr>"
| "handler P RecEnd s = onend s"
| "handler P PendingTimer s =
     (case pendingSpeak s of None \<Rightarrow> s | Some (t, d) \<Rightarrow> scheduleSpeak t s)"
| "handler P TypingTimer s =
     (case typingTimer s of None \<Rightarrow> s | Some t \<Rightarrow> speak t (s\<lparr>typingTimer := None\<rparr>))"
| "handler P UtteranceEnd s = s\<lparr>speaking := False\<rparr>"

text \<open>One step of the event loop: a handler, then the effects of the render it causes.\<close>

definition fire :: "platform \<Rightarrow> event \<Rightarrow> home \<Rightarrow> home" where
  "fire P e s = effects P s (handler P e s)"

definition welcomeMsg :: ChatMessage where
  "welcomeMsg =
     \<lparr>msgId = lit ''welcome'', role = Assistant,
      content = lit ''Hey! I'' @ [0x2019] @
        lit ''m your trip-planning buddy. Tell me where, when, and your vibe, and I'' @ [0x2019] @
        lit ''ll draft an itinerary.'',
      itinerary = None\<rparr>"

definition initialHome :: "bool \<Rightarrow> bool \<Rightarrow> home" where
  "initialHome tts stt =
     \<lparr>messages = [welcomeMsg], message = [], loading = False, autoRead = False,
      ttsSupported = tts, sttSupported = stt, listening = False, readDelayAfterMic = False,
      pendingSpeak = None, typingTimer = None, speaking = False, spoken = [],
      requests = [], inflight = None\<rparr>"

fun run :: "platform \<Rightarrow> event list \<Rightarrow> home \<Rightarrow> home" where
  "run P [] s = s"
| "run P (e # es) s = run P es (fire P e s)"

inductive reachable :: "platform \<Rightarrow> home \<Rightarrow> bool" for P :: platform where
  reachable_initial: "reachable P (initialHome tts stt)"
| reachable_fire: "reachable P s \<Longrightarrow> reachable P (fire P e s)"

section \<open>The itinerary viewer\<close>

text \<open>\<open>encodeURIComponent\<close>; \<open>None\<close> is the URIError for an unpaired surrogate.\<close>

definition unreserved :: "jschar \<Rightarrow> bool" where
  "unreserved c \<longleftrightarrow>
     (0x41 \<le> c \<and> c \<le> 0x5A) \<or> (0x61 \<le> c \<and> c \<le> 0x7A) \<or> (0x30 \<le> c \<and> c \<le> 0x39) \<or>
     c = 0x2D \<or> c = 0x5F \<or> c = 0x2E \<or> c = 0x21 \<or> c = 0x7E \<or> c = 0x2A \<or> c = 0x27 \<or>
     c = 0x28 \<or> c = 0x29"

definition utf8 :: "nat \<Rightarrow> nat list" where
  "utf8 cp =
     (if cp < 0x80 then [cp]
      else if cp < 0x800 then [0xC0 + cp div 64, 0x80 + cp mod 64]
      else if cp < 0x10000 then [0xE0 + cp div 4096, 0x80 + (cp div 64) mod 64, 0x80 + cp mod 64]
      else [0xF0 + cp div 262144, 0x80 + (cp div 4096) mod 64, 0x80 + (cp div 64) mod 64,
            0x80 + cp mod 64])"

definition hexDigit :: "nat \<Rightarrow> jschar" where
  "hexDigit n = (if n < 10 then 0x30 + of_nat n else 0x37 + of_nat n)"

definition percent :: "nat list \<Rightarrow> jsstring" where
  "percent bs = concat (map (\<lambda>b. [0x25, hexDigit (b div 16), hexDigit (b mod 16)]) bs)"

definition isHigh :: "jschar \<Rightarrow> bool" where
  "isHigh c \<longleftrightarrow> 0xD800 \<le> c \<and> c \<le> 0xDBFF"

definition isLow :: "jschar \<Rightarrow> bool" where
  "isLow c \<longleftrightarrow> 0xDC00 \<le> c \<and> c \<le> 0xDFFF"

fun encodeURIComponent :: "jsstring \<Rightarrow> jsstring option" where
  "encodeURIComponent [] = Some []"
| "encodeURIComponent [c] =
     (if unreserved c then Some [c]
      else if isLow c \<or> isHigh c then None
      else Some (percent (utf8 (unat c))))"
| "encodeURIComponent (c # d # cs) =
     (if unreserved c then map_option ((#) c) (encodeURIComponent (d # cs))
      else if isLow c then None
      else if isHigh c then
        (if isLow d then
           map_option ((@) (percent (utf8 (0x10000 + (unat c - 0xD800) * 0x400 + (unat d - 0xDC00)))))
             (encodeURIComponent cs)
         else None)
      else map_option ((@) (percent (utf8 (unat c)))) (encodeURIComponent (d # cs)))"

text \<open>The type \<open>Activity["location"]\<close>; an optional field is \<open>None\<close> when absent.\<close>

record location =
  name :: "jsstring option"
  address :: "jsstring option"
  lat :: "number option"
  lon :: "number option"
  place_id :: "jsstring option"

datatype exn = URIError

definition searchLink :: "jsstring \<Rightarrow> exn + jsstring option" where
  "searchLink q =
     (case encodeURIComponent q of
        None \<Rightarrow> Inl URIError
      | Some e \<Rightarrow> Inr (Some (lit ''https://www.google.com/maps/search/?api=1&query='' @ e)))"

text \<open>An optional string that is truthy: present and not empty.\<close>

definition nonEmpty :: "jsstring option \<Rightarrow> jsstring option" where
  "nonEmpty x = (case x of None \<Rightarrow> None | Some t \<Rightarrow> if t = [] then None else Some t)"

text \<open>
  \<open>googleMapsLink\<close>. \<open>numToString\<close> is the conversion of a number to a string in
  the template literal. The result \<open>Inr None\<close> is \<open>undefined\<close>.
\<close>

definition googleMapsLink :: "(number \<Rightarrow> jsstring) \<Rightarrow> location option \<Rightarrow> exn + jsstring option" where
  "googleMapsLink numToString loc =
     (case loc of
        None \<Rightarrow> Inr None
      | Some l \<Rightarrow>
          (case (lat l, lon l) of
             (Some la, Some lo) \<Rightarrow>
               Inr (Some (lit ''https://maps.google.com/?q='' @ numToString la @ lit '','' @ numToString lo))
           | _ \<Rightarrow>
               (case nonEmpty (name l) of
                  Some n \<Rightarrow> searchLink n
                | None \<Rightarrow>
                    (case nonEmpty (address l) of
                       Some a \<Rightarrow> searchLink a
                     | None \<Rightarrow> Inr None))))"

subsection \<open>Day navigation of \<open>ItineraryView\<close>\<close>

text \<open>The updaters of the two buttons and their \<open>disabled\<close> attributes.\<close>

definition prevUpdater :: "int \<Rightarrow> int" where
  "prevUpdater i = max 0 (i - 1)"

definition nextUpdater :: "'a list \<Rightarrow> int \<Rightarrow> int" where
  "nextUpdater days i = min (int (length days) - 1) (i + 1)"

definition prevDisabled :: "int \<Rightarrow> bool" where
  "prevDisabled dayIndex \<longleftrightarrow> dayIndex = 0"

definition nextDisabled :: "'a list \<Rightarrow> int \<Rightarrow> bool" where
  "nextDisabled days dayIndex \<longleftrightarrow> dayIndex \<ge> int (length days) - 1"

datatype nav = Prev | Next

text \<open>A click on a disabled button calls no handler.\<close>

fun click :: "'a list \<Rightarrow> nav \<Rightarrow> int \<Rightarrow> int" where
  "click days Prev i = (if prevDisabled i then i else prevUpdater i)"
| "click days Next i = (if nextDisabled days i then i else nextUpdater days i)"

fun clicks :: "'a list \<Rightarrow> nav list \<Rightarrow> int \<Rightarrow> int" where
  "clicks days [] i = i"
| "clicks days (n # ns) i = clicks days ns (click days n i)"

text \<open>\<open>useState(0)\<close>\<close>

definition dayIndex0 :: int where
  "dayIndex0 = 0"

subsection \<open>The image carousel of \<open>ActivityItem\<close>\<close>

text \<open>The remainder of JavaScript takes the sign of the dividend.\<close>

definition jsRem :: "int \<Rightarrow> int \<Rightarrow> int" where
  "jsRem a b = sgn a * (\<bar>a\<bar> mod \<bar>b\<bar>)"

definition safeIndex :: "'a list \<Rightarrow> int \<Rightarrow> int" where
  "safeIndex imgs n =
     (if length imgs \<noteq> 0
      then jsRem (jsRem n (int (length imgs)) + int (length imgs)) (int (length imgs))
      else 0)"

definition prevImage :: "'a list \<Rightarrow> int \<Rightarrow> int" where
  "prevImage imgs i = safeIndex imgs (i - 1)"

definition nextImage :: "'a list \<Rightarrow> int \<Rightarrow> int" where
  "nextImage imgs i = safeIndex imgs (i + 1)"

text \<open>\<open>imgs[k]\<close>: \<open>undefined\<close> outside the array.\<close>

definition element :: "'a list \<Rightarrow> int \<Rightarrow> 'a option" where
  "element xs k = (if 0 \<le> k \<and> k < int (length xs) then Some (xs ! nat k) else None)"

text \<open>What the right-hand side of the card shows.\<close>

datatype picture = Gallery "jsstring option" | Placeholder

definition picture :: "jsstring list \<Rightarrow> int \<Rightarrow> picture" where
  "picture imgs idx =
     (let hasImages = length imgs > 0;
          current = (if hasImages then element imgs (safeIndex imgs idx) else None)
      in if hasImages then Gallery current else Placeholder)"

section \<open>Auxiliary notions and closed examples\<close>

text \<open>The text with every CR LF replaced by LF, and the text without a final CR.\<close>

fun crlf :: "jsstring \<Rightarrow> jsstring" where
  "crlf [] = []"
| "crlf [c] = [c]"
| "crlf (c # d # cs) = (if c = CR \<and> d = LF then LF # crlf cs else c # crlf (d # cs))"

definition chopCR :: "jsstring \<Rightarrow> jsstring" where
  "chopCR s = (if s \<noteq> [] \<and> last s = CR then butlast s else s)"

text \<open>The wrapper \<open>"```json\n" + J + "\n```"\<close>\<close>

definition fenced :: "jsstring \<Rightarrow> jsstring" where
  "fenced J = lit ''```json'' @ LF # J @ LF # fence"

definition roundtripText :: jsstring where
  \<open>roundtripText = lit '' {"a":'' @ [CR, LF] @ lit ''[1, true]}'' @ [CR]\<close>

definition roundtripValue :: json where
  "roundtripValue = JObject [(lit ''a'', JArray [JNumber (Dec False 1 0), JBool True])]"

text \<open>
  A platform for the closed examples. It serialises the empty object and the
  empty array as \<open>JSON.stringify\<close> does and leaves a text without markdown as
  it is; the examples consult it on no other input.
\<close>

definition samplePlatform :: platform where
  "samplePlatform =
     \<lparr>JSON_stringify = (\<lambda>v. if v = JArray [] then lit ''[]'' else lit ''{}''),
      ToString = (\<lambda>v. lit ''[object Object]''),
      stripMarkdown = (\<lambda>t. t),
      summarizeBody = (\<lambda>v. Inr []),
      innerText = (\<lambda>ms l. joinLines (map content ms))\<rparr>"

text \<open>The conversion of a whole number below \<open>2^53\<close> to a string.\<close>

fun wholeToString :: "number \<Rightarrow> jsstring" where
  "wholeToString (Dec neg m e) = (if neg \<and> m \<noteq> 0 then 0x2D # decimal m else decimal m)"

text \<open>The scenario of the specification: the reply text and the payload in it.\<close>

definition scenarioJson :: jsstring where
  \<open>scenarioJson =
     lit ''{"meta":{"destination":"Rome","start_date":"2025-06-01","end_date":"2025-06-03","timezone":"Europe/Rome","days":2},"itinerary":[{"day":1,"date":"2025-06-01","activities":[{"activity_id":"a1","title":"Colosseum","time":"09:00"}]}]}''\<close>

definition scenarioOutput :: jsstring where
  "scenarioOutput = lit ''```json'' @ LF # scenarioJson @ LF # fence"

definition scenarioActivity :: json where
  "scenarioActivity =
     JObject [(lit ''activity_id'', JString (lit ''a1'')),
              (lit ''title'', JString (lit ''Colosseum'')),
              (lit ''time'', JString (lit ''09:00''))]"

definition scenarioDay :: json where
  "scenarioDay =
     JObject [(lit ''day'', JNumber (Dec False 1 0)),
              (lit ''date'', JString (lit ''2025-06-01'')),
              (lit ''activities'', JArray [scenarioActivity])]"

definition scenarioPayload :: json where
  "scenarioPayload =
     JObject [(lit ''meta'',
               JObject [(lit ''destination'', JString (lit ''Rome'')),
                        (lit ''start_date'', JString (lit ''2025-06-01'')),
                        (lit ''end_date'', JString (lit ''2025-06-03'')),
                        (lit ''timezone'', JString (lit ''Europe/Rome'')),
                        (lit ''days'', JNumber (Dec False 2 0))]),
              (lit ''itinerary'', JArray [scenarioDay])]"

text \<open>The page after the user has sent \<open>Plan Rome\<close>.\<close>

definition sentHome :: home where
  "sentHome = send_begin (lit ''id-1'') None ((initialHome True True)\<lparr>message := lit ''Plan Rome''\<rparr>)"

definition replyWith :: "json \<Rightarrow> response" where
  "replyWith v = Response True 200 (Some (JObject [(lit ''output'', v)]))"

text \<open>
  Two runs of the page. In the first the microphone is started and auto-read
  is then switched on. In the second a reply arrives while the microphone is
  on, its read is put off once, and the recognition session ends.
\<close>

definition interferenceRun :: "event list" where
  "interferenceRun = [ToggleMic, ToggleAutoRead True]"

definition deferredRun :: "event list" where
  "deferredRun =
     [ToggleAutoRead True, Typed (lit ''Plan Rome''), SendClicked (lit ''id-1''), ToggleMic,
      Settled (lit ''id-2'') (lit ''id-3'') (replyWith (JString (lit ''Hello''))), PendingTimer]"

text \<open>The page with an input of white space only.\<close>

definition blankHome :: home where
  "blankHome = (initialHome True True)\<lparr>message := [0x20, 0x09, 0xA0, 0x0A]\<rparr>"

text \<open>
  Locations: with every field; with a name and an address; with an address
  only; with nothing; with an empty name; with a name that is an unpaired
  surrogate, as \<open>JSON.parse\<close> yields for the text \<open>"\ud83d"\<close>.
\<close>

definition placeFull :: location where
  "placeFull =
     \<lparr>name = Some (lit ''Colosseum''), address = Some (lit ''Piazza del Colosseo''),
      lat = Some (Dec False 41 0), lon = Some (Dec False 12 0), place_id = None\<rparr>"

definition placeNamed :: location where
  "placeNamed = placeFull\<lparr>lat := None, lon := None\<rparr>"

definition placeAddressed :: location where
  "placeAddressed = placeNamed\<lparr>name := None\<rparr>"

definition placeBare :: location where
  "placeBare = placeAddressed\<lparr>address := None\<rparr>"

definition placeEmptyName :: location where
  "placeEmptyName = placeNamed\<lparr>name := Some []\<rparr>"

definition placeSurrogate :: location where
  "placeSurrogate = placeNamed\<lparr>name := Some [0xD83D]\<rparr>"

text \<open>Replies for the normalizer: an itinerary, an object without \<open>meta\<close>, plain text.\<close>

definition bareItinerary :: jsstring where
  \<open>bareItinerary = lit ''{"meta":{"days":1},"itinerary":[]}''\<close>

definition noMeta :: jsstring where
  \<open>noMeta = lit ''{"itinerary":[]}''\<close>

definition plainText :: jsstring where
  "plainText = lit '' Rome is lovely in June. ''"

text \<open>A run in which the reply arrives while the microphone is off.\<close>

definition quietRun :: "event list" where
  "quietRun =
     [ToggleAutoRead True, Typed (lit ''Plan Rome''), SendClicked (lit ''id-1''),
      Settled (lit ''id-2'') (lit ''id-3'') (replyWith (JString (lit ''Hello'')))]"

text \<open>
  What the parts of \<open>send\<close> leave alone, and the invariant of the page: the
  read-as-you-type timer is not armed while the microphone is on, and only a
  supported engine speaks.
\<close>

definition keeps :: "home \<Rightarrow> home \<Rightarrow> bool" where
  "keeps s s' \<longleftrightarrow>
     typingTimer s' = typingTimer s \<and> listening s' = listening s \<and> message s' = message s \<and>
     autoRead s' = autoRead s \<and> ttsSupported s' = ttsSupported s \<and>
     (speaking s' \<longrightarrow> speaking s \<or> ttsSupported s)"

definition speechInv :: "home \<Rightarrow> bool" where
  "speechInv s \<longleftrightarrow> (listening s \<longrightarrow> typingTimer s = None) \<and> (speaking s \<longrightarrow> ttsSupported s)"

section \<open>Stripping the fence does not change what is parsed\<close>

lemma LF_CR [simp]: "LF \<noteq> CR" "CR \<noteq> LF"
  by (simp_all add: LF_def CR_def)

lemma splitLines_ne: "splitLines cur s \<noteq> []"
  by (induction cur s rule: splitLines.induct) auto

lemma joinLines_Cons: "ls \<noteq> [] \<Longrightarrow> joinLines (l # ls) = l @ LF # joinLines ls"
  by (cases ls) auto

lemma joinLines_splitLines: "joinLines (splitLines cur s) = rev cur @ crlf s"
  by (induction cur s rule: splitLines.induct)
     (auto simp: joinLines_Cons splitLines_ne)

lemma splitLines_LF: "splitLines cur (LF # b) = rev cur # splitLines [] b"
  by (cases b) auto

lemma chopCR_Cons: "cs \<noteq> [] \<Longrightarrow> chopCR (c # cs) = c # chopCR cs"
  by (auto simp: chopCR_def)

lemma splitLines_append_LF:
  "splitLines cur (a @ LF # b) = splitLines cur (chopCR a) @ splitLines [] b"
proof (induction cur a rule: splitLines.induct)
  case (1 cur)
  then show ?case by (simp add: splitLines_LF chopCR_def)
next
  case (2 cur c)
  then show ?case
    by (auto simp: splitLines_LF chopCR_def)
next
  case (3 cur c d cs)
  show ?case
  proof (cases "cs = []")
    case True
    with 3 show ?thesis
      by (auto simp: splitLines_LF chopCR_def)
  next
    case False
    then obtain e es where cs: "cs = e # es" by (cases cs) auto
    have ch: "chopCR (c # d # cs) = c # d # chopCR cs"
      using False by (simp add: chopCR_Cons)
    have ch': "chopCR (d # cs) = d # chopCR cs"
      using False by (simp add: chopCR_Cons)
    show ?thesis
    proof (cases "c = LF")
      case True
      with 3 ch ch' show ?thesis by auto
    next
      case nLF: False
      show ?thesis
      proof (cases "c = CR \<and> d = LF")
        case True
        with 3 nLF ch show ?thesis by (auto simp: splitLines_LF)
      next
        case False
        with 3 nLF ch ch' show ?thesis by auto
      qed
    qed
  qed
qed


lemma kwText_not_ws: "i < length (kwText k) \<Longrightarrow> \<not> isWhiteSpace (kwText k ! i)"
proof -
  have "\<forall>c \<in> set (kwText k). \<not> isWhiteSpace c"
    by (cases k) (simp_all add: lit_def isWhiteSpace_def)
  then show "i < length (kwText k) \<Longrightarrow> \<not> isWhiteSpace (kwText k ! i)"
    using nth_mem by blast
qed

lemma ws_range: "isWhiteSpace c \<Longrightarrow> unat c \<le> 0x20 \<or> 0xA0 \<le> unat c"
  unfolding isWhiteSpace_def by (elim disjE conjE) (simp_all add: word_le_nat_alt)

lemma ws_neq: "isWhiteSpace c \<Longrightarrow> 0x20 < unat d \<Longrightarrow> unat d < 0xA0 \<Longrightarrow> c \<noteq> d"
  using ws_range by fastforce

lemma ws_facts:
  assumes "isWhiteSpace c"
  shows "\<not> isDigit c" "hexVal c = None"
    "c \<noteq> 0x22" "c \<noteq> 0x5C" "c \<noteq> 0x2F" "c \<noteq> 0x62" "c \<noteq> 0x66" "c \<noteq> 0x6E" "c \<noteq> 0x72"
    "c \<noteq> 0x74" "c \<noteq> 0x75" "c \<noteq> 0x30" "c \<noteq> 0x2E" "c \<noteq> 0x65" "c \<noteq> 0x45" "c \<noteq> 0x2B"
    "c \<noteq> 0x2D" "c \<noteq> 0x7B" "c \<noteq> 0x7D" "c \<noteq> 0x5B" "c \<noteq> 0x5D" "c \<noteq> 0x3A" "c \<noteq> 0x2C"
proof -
  show "\<not> isDigit c" "hexVal c = None"
    using ws_range [OF assms] by (auto simp: isDigit_def hexVal_def word_le_nat_alt)
qed (rule ws_neq [OF assms]; simp)+

lemma lexStart_ws:
  "isWhiteSpace c \<Longrightarrow> lexStart c = (if isJsonWs c then Some ([], MStart) else None)"
  by (simp add: lexStart_def ws_facts)

lemma lexStep_ws:
  assumes "isWhiteSpace c" and "lexStep m c = Some (ts, m')"
  shows "(lexFinish m = Some ts \<and> m' = MStart) \<or> (\<exists>acc acc'. m = MStr acc \<and> m' = MStr acc')"
proof (cases m)
  case (MLit k i)
  with assms kwText_not_ws [of i k] show ?thesis by (auto split: if_splits)
qed (use assms in \<open>auto simp: ws_facts lexStart_ws emit_def split: if_splits option.splits\<close>)

lemma lexStep_newline:
  assumes "c = CR \<or> c = LF"
  shows "lexStep m c = map_option (\<lambda>ts. (ts, MStart)) (lexFinish m)"
proof -
  have ws: "isWhiteSpace c" and jw: "isJsonWs c" and lt: "c < 0x20"
    using assms by (auto simp: isWhiteSpace_def isJsonWs_def CR_def LF_def)
  show ?thesis
  proof (cases m)
    case (MLit k i)
    with ws kwText_not_ws [of i k] show ?thesis by auto
  qed (use ws jw lt in \<open>auto simp: ws_facts lexStart_ws emit_def\<close>)
qed

lemma lexer_crlf: "lexer m (crlf s) = lexer m s"
proof (induction s arbitrary: m rule: crlf.induct)
  case (3 c d cs)
  show ?case
  proof (cases "c = CR \<and> d = LF")
    case True
    then show ?thesis
      using 3(1) [of MStart]
      by (cases "lexFinish m") (simp_all add: lexStep_newline option.map_comp comp_def option.map_ident)
  next
    case False
    then show ?thesis
      using 3(2) by (auto split: option.splits)
  qed
qed simp_all

lemma lexer_ws_finish:
  "lexer m w = Some ts \<Longrightarrow> \<forall>c \<in> set w. isWhiteSpace c \<Longrightarrow> lexFinish m = Some ts"
proof (induction w arbitrary: m ts)
  case Nil
  then show ?case by simp
next
  case (Cons c w)
  from Cons.prems(1) obtain t0 m' ts' where
    st: "lexStep m c = Some (t0, m')" and rest: "lexer m' w = Some ts'" and ts: "ts = t0 @ ts'"
    by (auto split: option.splits)
  from Cons.prems(2) have wc: "isWhiteSpace c" and ww: "\<forall>c \<in> set w. isWhiteSpace c" by auto
  from Cons.IH [OF rest ww] have fin: "lexFinish m' = Some ts'" .
  from lexStep_ws [OF wc st] show ?case
  proof
    assume "lexFinish m = Some t0 \<and> m' = MStart"
    with fin ts show ?thesis by simp
  next
    assume "\<exists>acc acc'. m = MStr acc \<and> m' = MStr acc'"
    with fin show ?thesis by auto
  qed
qed

lemma lexer_drop_trailing:
  "lexer m (a @ w) = Some ts \<Longrightarrow> \<forall>c \<in> set w. isWhiteSpace c \<Longrightarrow> lexer m a = Some ts"
proof (induction a arbitrary: m ts)
  case Nil
  then show ?case by (simp add: lexer_ws_finish)
next
  case (Cons c a)
  from Cons.prems(1) obtain t0 m' ts' where
    st: "lexStep m c = Some (t0, m')" and rest: "lexer m' (a @ w) = Some ts'" and ts: "ts = t0 @ ts'"
    by (auto split: option.splits)
  from Cons.IH [OF rest Cons.prems(2)] st ts show ?case by simp
qed

lemma lexer_drop_leading:
  "lexer MStart s = Some ts \<Longrightarrow> lexer MStart (dropWhile isWhiteSpace s) = Some ts"
proof (induction s)
  case Nil
  then show ?case by simp
next
  case (Cons c s)
  show ?case
  proof (cases "isWhiteSpace c")
    case True
    with Cons.prems have "lexer MStart s = Some ts"
      by (auto simp: lexStart_ws split: if_splits option.splits)
    with Cons.IH True show ?thesis by simp
  next
    case False
    with Cons.prems show ?thesis by simp
  qed
qed

lemma lexer_trim: "lexer MStart s = Some ts \<Longrightarrow> lexer MStart (trim s) = Some ts"
proof -
  assume a: "lexer MStart s = Some ts"
  let ?d = "dropWhile isWhiteSpace s"
  have d: "lexer MStart ?d = Some ts" by (rule lexer_drop_leading [OF a])
  have split: "?d = rev (dropWhile isWhiteSpace (rev ?d)) @ rev (takeWhile isWhiteSpace (rev ?d))"
    by (metis rev_append rev_rev_ident takeWhile_dropWhile_id)
  have ws: "\<forall>c \<in> set (rev (takeWhile isWhiteSpace (rev ?d))). isWhiteSpace c"
    by (auto dest: set_takeWhileD)
  from d split have "lexer MStart (rev (dropWhile isWhiteSpace (rev ?d)) @ rev (takeWhile isWhiteSpace (rev ?d))) = Some ts"
    by simp
  from lexer_drop_trailing [OF this ws] show ?thesis by (simp add: trim_def)
qed

lemma lexer_chopCR: "lexer m s = Some ts \<Longrightarrow> lexer m (chopCR s) = Some ts"
proof (cases "s \<noteq> [] \<and> last s = CR")
  case True
  assume a: "lexer m s = Some ts"
  from True have s: "s = butlast s @ [CR]" by (metis append_butlast_last_id)
  have "\<forall>c \<in> set [CR]. isWhiteSpace c" by (simp add: isWhiteSpace_def CR_def)
  with a s lexer_drop_trailing [of m "butlast s" "[CR]" ts] have "lexer m (butlast s) = Some ts"
    by simp
  with True show ?thesis by (simp add: chopCR_def)
next
  case False
  assume "lexer m s = Some ts"
  with False show ?thesis by (auto simp: chopCR_def)
qed

lemma trim_fenced: "trim (fenced J) = fenced J"
proof -
  have nb: "\<not> isWhiteSpace 0x60" by (simp add: isWhiteSpace_def)
  have hd: "fenced J = 0x60 # tl (fenced J)" by (simp add: fenced_def lit_def)
  have lst: "rev (fenced J) = 0x60 # tl (rev (fenced J))" by (simp add: fenced_def fence_def)
  have "dropWhile isWhiteSpace (fenced J) = fenced J"
    by (subst hd, simp add: nb) (simp add: hd [symmetric])
  moreover have "dropWhile isWhiteSpace (rev (fenced J)) = rev (fenced J)"
    by (subst lst, simp add: nb) (simp add: lst [symmetric])
  ultimately show ?thesis by (simp add: trim_def)
qed

lemma fenced_starts: "startsWith (fenced J) fence"
  by (simp add: startsWith_def fenced_def fence_def lit_def)

lemma fenced_ends: "endsWith (fenced J) fence"
  by (simp add: endsWith_def fenced_def fence_def)

lemma splitLines_fenced:
  "butlast (tl (splitLines [] (fenced J))) = splitLines [] (chopCR J)"
proof -
  have h: "splitLines [] (chopCR (lit ''```json'')) = [lit ''```json'']"
    by (simp add: chopCR_def lit_def CR_def LF_def)
  have f: "splitLines [] fence = [fence]"
    by (simp add: fence_def LF_def CR_def)
  have "splitLines [] (fenced J) = lit ''```json'' # splitLines [] (J @ LF # fence)"
    unfolding fenced_def using splitLines_append_LF [of "[]" "lit ''```json''" "J @ LF # fence"] h
    by simp
  then show ?thesis
    by (simp add: splitLines_append_LF [of "[]" J fence] f)
qed

lemma stripCodeFence_fenced: "stripCodeFence (fenced J) = trim (crlf (chopCR J))"
  using joinLines_splitLines [of "[]" "chopCR J"]
  by (simp add: stripCodeFence_def trim_fenced fenced_starts fenced_ends splitLines_fenced)

text \<open>
  Claim C6. For every JSON text \<open>J\<close>, \<open>stripCodeFence\<close> applied to
  \<open>"```json\n" + J + "\n```"\<close> yields a text that \<open>JSON.parse\<close> maps to the value
  it gives for \<open>J\<close> itself.
\<close>

theorem fence_roundtrip:
  assumes "JSON_parse J = Some v"
  shows "JSON_parse (stripCodeFence (lit ''```json'' @ LF # J @ LF # fence)) = Some v"
proof -
  from assms obtain ts where lx: "lexer MStart J = Some ts" and pt: "parseTokens ts = Some v"
    by (auto simp: JSON_parse_def split: option.splits)
  have "lexer MStart (chopCR J) = Some ts" by (rule lexer_chopCR [OF lx])
  then have "lexer MStart (crlf (chopCR J)) = Some ts" by (simp add: lexer_crlf)
  then have "lexer MStart (trim (crlf (chopCR J))) = Some ts" by (rule lexer_trim)
  with pt show ?thesis
    using stripCodeFence_fenced [of J] by (simp add: JSON_parse_def fenced_def)
qed

theorem fence_roundtrip_witness:
  "JSON_parse roundtripText = Some roundtripValue \<and>
   JSON_parse (stripCodeFence (lit ''```json'' @ LF # roundtripText @ LF # fence)) = Some roundtripValue"
proof -
  have h: "JSON_parse roundtripText = Some roundtripValue"
    by code_simp
  from fence_roundtrip [OF h] h show ?thesis by simp
qed

section \<open>The normalizer accepts only itineraries\<close>

lemma isItinerary_shape:
  assumes "isItinerary y"
  shows "(\<exists>ms. y = JObject ms) \<and> (\<exists>m. getProp y (lit ''meta'') = Some m) \<and>
         (\<exists>ds. getProp y (lit ''itinerary'') = Some (JArray ds))"
proof -
  from assms have t: "typeofObject y" and m: "truthyU (getProp y (lit ''meta''))"
    and a: "isArray (getProp y (lit ''itinerary''))"
    by (auto simp: isItinerary_def split: if_splits)
  from m obtain mv where mv: "getProp y (lit ''meta'') = Some mv"
    by (cases "getProp y (lit ''meta'')") auto
  from a obtain ds where ds: "getProp y (lit ''itinerary'') = Some (JArray ds)"
    by (auto elim: isArray.elims)
  from mv obtain ms where "y = JObject ms" by (cases y) auto
  with mv ds show ?thesis by blast
qed

lemma isItinerary_needs:
  "getProp x (lit ''meta'') = None \<or> \<not> isArray (getProp x (lit ''itinerary'')) \<Longrightarrow> \<not> isItinerary x"
  by (auto simp: isItinerary_def)

lemma nextMsg_text:
  "safeParseItinerary str = None \<Longrightarrow>
   nextMsg P uuid (JString str) = \<lparr>msgId = uuid, role = Assistant, content = trim str, itinerary = None\<rparr>"
  by (simp add: nextMsg_def interpretOutput_def Let_def)

lemma nextMsg_parsed:
  "safeParseItinerary str = Some it \<Longrightarrow>
   nextMsg P uuid (JString str) = \<lparr>msgId = uuid, role = Assistant, content = caption, itinerary = Some it\<rparr>"
  by (simp add: nextMsg_def interpretOutput_def Let_def)

lemma nextMsg_itinerary:
  "isItinerary y \<Longrightarrow>
   nextMsg P uuid y = \<lparr>msgId = uuid, role = Assistant, content = caption, itinerary = Some y\<rparr>"
  using isItinerary_shape [of y]
  by (auto simp: nextMsg_def interpretOutput_def Let_def)

lemma nextMsg_object:
  "\<not> isItinerary (JObject ms) \<Longrightarrow>
   nextMsg P uuid (JObject ms) =
     \<lparr>msgId = uuid, role = Assistant, content = JSON_stringify P (JObject ms), itinerary = None\<rparr>"
  by (simp add: nextMsg_def interpretOutput_def Let_def)


section \<open>What a settled request appends\<close>

lemma messages_speak [simp]: "messages (speak t s) = messages s"
  by (simp add: speak_def)

lemma messages_send_catch:
  "messages (send_catch uuid ar msg s) =
   messages s @ [\<lparr>msgId = uuid, role = Error, content = lit ''Error: '' @ msg, itinerary = None\<rparr>]"
  by (simp add: send_catch_def Let_def)

lemma send_try_ok:
  "case send_try P uuid ar (Response True status body) s of
     Inr s' \<Rightarrow>
       messages s' =
         messages s @ [nextMsg P uuid (outputOf (case body of None \<Rightarrow> JObject [] | Some d \<Rightarrow> d))]
   | Inl (e, s') \<Rightarrow>
       messages s' =
         messages s @ [nextMsg P uuid (outputOf (case body of None \<Rightarrow> JObject [] | Some d \<Rightarrow> d))] \<and>
       toSpeak P (nextMsg P uuid (outputOf (case body of None \<Rightarrow> JObject [] | Some d \<Rightarrow> d))) = Inl e"
  by (auto simp: send_try_def Let_def split: sum.splits option.splits)

lemma messages_settle_ok:
  "take (Suc (length (messages s)))
     (messages (send_settle P uuid uuid' ar (Response True status body) s)) =
   messages s @ [nextMsg P uuid (outputOf (case body of None \<Rightarrow> JObject [] | Some d \<Rightarrow> d))]"
proof (cases "send_try P uuid ar (Response True status body) s")
  case (Inl p)
  obtain e s' where p: "p = (e, s')" by (cases p)
  with Inl send_try_ok [where P = P and uuid = uuid and ar = ar and status = status and body = body and s = s] show ?thesis
    by (simp add: send_settle_def messages_send_catch)
next
  case (Inr s')
  with send_try_ok [where P = P and uuid = uuid and ar = ar and status = status and body = body and s = s] show ?thesis
    by (simp add: send_settle_def)
qed

lemma toSpeak_plain: "itinerary m = None \<Longrightarrow> \<exists>t. toSpeak P m = Inr t"
  by (simp add: toSpeak_def summarizeItinerary_def)

lemma messages_settle_plain:
  assumes "itinerary (nextMsg P uuid (outputOf (case body of None \<Rightarrow> JObject [] | Some d \<Rightarrow> d))) = None"
  shows "messages (send_settle P uuid uuid' ar (Response True status body) s) =
         messages s @ [nextMsg P uuid (outputOf (case body of None \<Rightarrow> JObject [] | Some d \<Rightarrow> d))]"
proof (cases "send_try P uuid ar (Response True status body) s")
  case (Inl p)
  obtain e s' where p: "p = (e, s')" by (cases p)
  with Inl send_try_ok [where P = P and uuid = uuid and ar = ar and status = status and body = body and s = s] toSpeak_plain [OF assms, where P = P]
  show ?thesis by auto
next
  case (Inr s')
  with send_try_ok [where P = P and uuid = uuid and ar = ar and status = status and body = body and s = s] show ?thesis
    by (simp add: send_settle_def)
qed

lemma outputOf_wrapped: "outputOf (JObject [(lit ''output'', JString t)]) = JString t"
  by (simp add: outputOf_def)

lemma messages_settle_quiet:
  "messages (send_settle P uuid uuid' False (Response True status body) s) =
   messages s @ [nextMsg P uuid (outputOf (case body of None \<Rightarrow> JObject [] | Some d \<Rightarrow> d))]"
  by (simp add: send_settle_def send_try_def Let_def split: option.splits)

lemma loading_settle: "\<not> loading (send_settle P uuid uuid' ar resp s)"
  by (simp add: send_settle_def Let_def)

lemma sentHome_messages:
  "messages sentHome =
     [welcomeMsg, \<lparr>msgId = lit ''id-1'', role = User, content = lit ''Plan Rome'', itinerary = None\<rparr>]"
  by (simp add: sentHome_def send_begin_def initialHome_def trim_def isWhiteSpace_def lit_def Let_def)


lemma crlf_id: "CR \<notin> set s \<Longrightarrow> crlf s = s"
  by (induction s rule: crlf.induct) auto

lemma trim_id: "s \<noteq> [] \<Longrightarrow> \<not> isWhiteSpace (hd s) \<Longrightarrow> \<not> isWhiteSpace (last s) \<Longrightarrow> trim s = s"
proof -
  assume ne: "s \<noteq> []" and h: "\<not> isWhiteSpace (hd s)" and l: "\<not> isWhiteSpace (last s)"
  from ne h have a: "dropWhile isWhiteSpace s = s" by (cases s) auto
  from ne l have b: "dropWhile isWhiteSpace (rev s) = rev s"
    by (cases "rev s") (auto simp: last_rev [symmetric] hd_rev)
  show ?thesis by (simp add: trim_def a b)
qed

lemma scenario_facts:
  "CR \<notin> set scenarioJson" "scenarioJson \<noteq> []" "hd scenarioJson = 0x7B" "last scenarioJson = 0x7D"
  by (simp_all add: scenarioJson_def lit_def CR_def)

lemma scenario_strip: "stripCodeFence scenarioOutput = scenarioJson"
proof -
  have c: "chopCR scenarioJson = scenarioJson"
    by (simp add: chopCR_def scenario_facts CR_def)
  have t: "trim scenarioJson = scenarioJson"
    by (rule trim_id) (simp_all add: scenario_facts isWhiteSpace_def)
  show ?thesis
    using stripCodeFence_fenced [of scenarioJson]
    by (simp add: scenarioOutput_def fenced_def c t crlf_id scenario_facts)
qed

lemma scenario_parse: "JSON_parse scenarioJson = Some scenarioPayload"
  by (simp add: JSON_parse_def parseTokens_def scenarioJson_def lit_def lexStart_def isJsonWs_def isDigit_def
     digitVal_def emit_def scenarioPayload_def scenarioDay_def scenarioActivity_def)

lemma scenario_isItinerary: "isItinerary scenarioPayload"
  by (simp add: isItinerary_def scenarioPayload_def lit_def)

lemma scenario_safeParse: "safeParseItinerary scenarioOutput = Some scenarioPayload"
  by (simp add: safeParseItinerary_def scenario_strip scenario_parse scenario_isItinerary)


lemma outputOf_number: "outputOf (JObject [(lit ''output'', JNumber n)]) = JNumber n"
  by (simp add: outputOf_def)

lemma nextMsg_array:
  "nextMsg P uuid (JArray es) =
     \<lparr>msgId = uuid, role = Assistant, content = JSON_stringify P (JArray es), itinerary = None\<rparr>"
  by (simp add: nextMsg_def interpretOutput_def isItinerary_def Let_def)

lemma nextMsg_primitive:
  "nextMsg P uuid (JNumber n) = \<lparr>msgId = uuid, role = Assistant, content = [], itinerary = None\<rparr>"
  "nextMsg P uuid (JBool b) = \<lparr>msgId = uuid, role = Assistant, content = [], itinerary = None\<rparr>"
  "nextMsg P uuid JNull = \<lparr>msgId = uuid, role = Assistant, content = [], itinerary = None\<rparr>"
  by (simp_all add: nextMsg_def interpretOutput_def Let_def)

text \<open>
  Claim C1, as stated: every payload that lacks \<open>meta\<close> falls back to a
  plain-text display. The reply \<open>{"output": 5}\<close> lacks \<open>meta\<close>, and the message
  that \<open>send\<close> appends for it has an empty content: neither branch of lines
  520 to 526 takes a number, so nothing is displayed.
\<close>

theorem normalizer_fallback_counterexample:
  "getProp (JNumber (Dec False 5 0)) (lit ''meta'') = None \<and>
   last (messages (send_settle samplePlatform (lit ''id-2'') (lit ''id-3'') False
      (replyWith (JNumber (Dec False 5 0))) sentHome)) =
   \<lparr>msgId = lit ''id-2'', role = Assistant, content = [], itinerary = None\<rparr>"
  by (simp add: replyWith_def messages_settle_quiet outputOf_number nextMsg_primitive)

text \<open>
  Claim C1, amended. A payload is accepted as an itinerary only if it is,
  after fence stripping and parsing, an object that has a \<open>meta\<close> and an array
  \<open>itinerary\<close>. Without \<open>meta\<close>, or with an \<open>itinerary\<close> that is not an array,
  \<open>safeParseItinerary\<close> returns \<open>null\<close>. A string payload is then shown as
  its trimmed text, also when it does not parse; an object payload that is no
  itinerary and every array payload are shown serialised; in each case the
  message is an assistant message, not an error. A number, boolean or \<open>null\<close>
  payload gives an assistant message with an empty content.
\<close>

theorem normalizer_itinerary_shape:
  "(isItinerary y \<longrightarrow>
      (\<exists>ms. y = JObject ms) \<and> (\<exists>m. getProp y (lit ''meta'') = Some m) \<and>
      (\<exists>ds. getProp y (lit ''itinerary'') = Some (JArray ds)))
   \<and> (safeParseItinerary raw = Some obj \<longrightarrow>
        JSON_parse (stripCodeFence raw) = Some obj \<and> isItinerary obj)
   \<and> (JSON_parse (stripCodeFence raw') = Some x \<and>
        (getProp x (lit ''meta'') = None \<or> \<not> isArray (getProp x (lit ''itinerary''))) \<longrightarrow>
        safeParseItinerary raw' = None \<and>
        nextMsg P uuid (JString raw') =
          \<lparr>msgId = uuid, role = Assistant, content = trim raw', itinerary = None\<rparr>)
   \<and> (JSON_parse (stripCodeFence raw'') = None \<longrightarrow>
        safeParseItinerary raw'' = None \<and>
        nextMsg P uuid (JString raw'') =
          \<lparr>msgId = uuid, role = Assistant, content = trim raw'', itinerary = None\<rparr>)
   \<and> (getProp (JObject ms') (lit ''meta'') = None \<or>
        \<not> isArray (getProp (JObject ms') (lit ''itinerary'')) \<longrightarrow>
        nextMsg P uuid (JObject ms') =
          \<lparr>msgId = uuid, role = Assistant, content = JSON_stringify P (JObject ms'),
           itinerary = None\<rparr>)
   \<and> nextMsg P uuid (JArray es) =
        \<lparr>msgId = uuid, role = Assistant, content = JSON_stringify P (JArray es), itinerary = None\<rparr>
   \<and> nextMsg P uuid (JNumber n) =
        \<lparr>msgId = uuid, role = Assistant, content = [], itinerary = None\<rparr>
   \<and> nextMsg P uuid (JBool b) =
        \<lparr>msgId = uuid, role = Assistant, content = [], itinerary = None\<rparr>
   \<and> nextMsg P uuid JNull =
        \<lparr>msgId = uuid, role = Assistant, content = [], itinerary = None\<rparr>"
proof -
  have 1: "isItinerary y \<longrightarrow>
      (\<exists>ms. y = JObject ms) \<and> (\<exists>m. getProp y (lit ''meta'') = Some m) \<and>
      (\<exists>ds. getProp y (lit ''itinerary'') = Some (JArray ds))"
    using isItinerary_shape by blast
  have 2: "safeParseItinerary raw = Some obj \<longrightarrow>
        JSON_parse (stripCodeFence raw) = Some obj \<and> isItinerary obj"
    by (auto simp: safeParseItinerary_def split: option.splits if_splits)
  have 3: "JSON_parse (stripCodeFence raw') = Some x \<and>
        (getProp x (lit ''meta'') = None \<or> \<not> isArray (getProp x (lit ''itinerary''))) \<longrightarrow>
        safeParseItinerary raw' = None \<and>
        nextMsg P uuid (JString raw') =
          \<lparr>msgId = uuid, role = Assistant, content = trim raw', itinerary = None\<rparr>"
    using isItinerary_needs [of x] nextMsg_text [of raw' P uuid]
    by (auto simp: safeParseItinerary_def)
  have 4: "JSON_parse (stripCodeFence raw'') = None \<longrightarrow>
        safeParseItinerary raw'' = None \<and>
        nextMsg P uuid (JString raw'') =
          \<lparr>msgId = uuid, role = Assistant, content = trim raw'', itinerary = None\<rparr>"
    using nextMsg_text [of raw'' P uuid] by (simp add: safeParseItinerary_def)
  have 5: "getProp (JObject ms') (lit ''meta'') = None \<or>
        \<not> isArray (getProp (JObject ms') (lit ''itinerary'')) \<longrightarrow>
        nextMsg P uuid (JObject ms') =
          \<lparr>msgId = uuid, role = Assistant, content = JSON_stringify P (JObject ms'),
           itinerary = None\<rparr>"
    using isItinerary_needs [of "JObject ms'"] nextMsg_object by blast
  from 1 2 3 4 5 show ?thesis
    by (simp only: nextMsg_array nextMsg_primitive simp_thms)
qed

theorem normalizer_itinerary_shape_witness:
  "isItinerary scenarioPayload \<and>
   safeParseItinerary bareItinerary =
     Some (JObject [(lit ''meta'', JObject [(lit ''days'', JNumber (Dec False 1 0))]),
                    (lit ''itinerary'', JArray [])]) \<and>
   JSON_parse (stripCodeFence noMeta) = Some (JObject [(lit ''itinerary'', JArray [])]) \<and>
   getProp (JObject [(lit ''itinerary'', JArray [])]) (lit ''meta'') = None \<and>
   safeParseItinerary noMeta = None \<and>
   nextMsg samplePlatform (lit ''id-2'') (JString noMeta) =
     \<lparr>msgId = lit ''id-2'', role = Assistant, content = noMeta, itinerary = None\<rparr> \<and>
   JSON_parse (stripCodeFence plainText) = None \<and>
   nextMsg samplePlatform (lit ''id-2'') (JString plainText) =
     \<lparr>msgId = lit ''id-2'', role = Assistant, content = lit ''Rome is lovely in June.'',
      itinerary = None\<rparr> \<and>
   nextMsg samplePlatform (lit ''id-2'') (JObject []) =
     \<lparr>msgId = lit ''id-2'', role = Assistant, content = lit ''{}'', itinerary = None\<rparr> \<and>
   nextMsg samplePlatform (lit ''id-2'') (JArray []) =
     \<lparr>msgId = lit ''id-2'', role = Assistant, content = lit ''[]'', itinerary = None\<rparr> \<and>
   nextMsg samplePlatform (lit ''id-2'') (JNumber (Dec False 5 0)) =
     \<lparr>msgId = lit ''id-2'', role = Assistant, content = [], itinerary = None\<rparr> \<and>
   nextMsg samplePlatform (lit ''id-2'') (JBool True) =
     \<lparr>msgId = lit ''id-2'', role = Assistant, content = [], itinerary = None\<rparr> \<and>
   nextMsg samplePlatform (lit ''id-2'') JNull =
     \<lparr>msgId = lit ''id-2'', role = Assistant, content = [], itinerary = None\<rparr>"
proof -
  have a: "safeParseItinerary bareItinerary =
     Some (JObject [(lit ''meta'', JObject [(lit ''days'', JNumber (Dec False 1 0))]),
                    (lit ''itinerary'', JArray [])])"
    by code_simp
  have b: "JSON_parse (stripCodeFence noMeta) = Some (JObject [(lit ''itinerary'', JArray [])])"
    by code_simp
  have c: "getProp (JObject [(lit ''itinerary'', JArray [])]) (lit ''meta'') = None"
    by (simp add: lit_def)
  have d: "JSON_parse (stripCodeFence plainText) = None"
    by code_simp
  have e: "trim noMeta = noMeta" "trim plainText = lit ''Rome is lovely in June.''"
    by code_simp+
  have f: "getProp (JObject []) (lit ''meta'') = None" by simp
  from normalizer_itinerary_shape [where y = scenarioPayload and raw = bareItinerary
      and obj = "JObject [(lit ''meta'', JObject [(lit ''days'', JNumber (Dec False 1 0))]),
                    (lit ''itinerary'', JArray [])]"
      and raw' = noMeta and x = "JObject [(lit ''itinerary'', JArray [])]"
      and raw'' = plainText and ms' = "[]" and es = "[]" and n = "Dec False 5 0" and b = True
      and P = samplePlatform and uuid = "lit ''id-2''"]
    a b c d e f scenario_isItinerary
  show ?thesis by (simp add: samplePlatform_def)
qed


text \<open>
  Claim C2, as stated: for the scenario's reply the appended assistant
  message has an empty content. It has not: the content is the caption that
  \<open>send\<close> gives to a reply with an itinerary and no text of its own.
\<close>

theorem scenario_caption_counterexample:
  "content (last (messages (send_settle samplePlatform (lit ''id-2'') (lit ''id-3'') False
      (replyWith (JString scenarioOutput)) sentHome))) = caption \<and>
   caption \<noteq> []"
  by (simp add: replyWith_def messages_settle_quiet outputOf_wrapped
      nextMsg_parsed [OF scenario_safeParse] caption_def)


text \<open>
  Claim C2, amended. For the scenario's reply, \<open>send\<close> appends an assistant
  message whose content is the fixed caption and whose itinerary is the
  parsed payload; day 1 of the payload has exactly one activity, titled
  Colosseum, with time 09:00.
\<close>

theorem scenario_reply:
  "take (Suc (length (messages s)))
     (messages (send_settle P uuid uuid' ar (replyWith (JString scenarioOutput)) s)) =
     messages s @
     [\<lparr>msgId = uuid, role = Assistant, content = caption, itinerary = Some scenarioPayload\<rparr>] \<and>
   getProp scenarioPayload (lit ''itinerary'') = Some (JArray [scenarioDay]) \<and>
   getProp scenarioDay (lit ''day'') = Some (JNumber (Dec False 1 0)) \<and>
   getProp scenarioDay (lit ''activities'') = Some (JArray [scenarioActivity]) \<and>
   getProp scenarioActivity (lit ''title'') = Some (JString (lit ''Colosseum'')) \<and>
   getProp scenarioActivity (lit ''time'') = Some (JString (lit ''09:00''))"
proof -
  have "take (Suc (length (messages s)))
     (messages (send_settle P uuid uuid' ar (replyWith (JString scenarioOutput)) s)) =
     messages s @
     [\<lparr>msgId = uuid, role = Assistant, content = caption, itinerary = Some scenarioPayload\<rparr>]"
    unfolding replyWith_def
    by (simp only: messages_settle_ok option.case outputOf_wrapped nextMsg_parsed [OF scenario_safeParse])
  moreover have "getProp scenarioPayload (lit ''itinerary'') = Some (JArray [scenarioDay])"
    "getProp scenarioDay (lit ''day'') = Some (JNumber (Dec False 1 0))"
    "getProp scenarioDay (lit ''activities'') = Some (JArray [scenarioActivity])"
    "getProp scenarioActivity (lit ''title'') = Some (JString (lit ''Colosseum''))"
    "getProp scenarioActivity (lit ''time'') = Some (JString (lit ''09:00''))"
    by (simp_all add: scenarioPayload_def scenarioDay_def scenarioActivity_def lit_def)
  ultimately show ?thesis by simp
qed

theorem scenario_reply_witness:
  "take 3 (messages (send_settle samplePlatform (lit ''id-2'') (lit ''id-3'') True
      (replyWith (JString scenarioOutput)) sentHome)) =
   [welcomeMsg,
    \<lparr>msgId = lit ''id-1'', role = User, content = lit ''Plan Rome'', itinerary = None\<rparr>,
    \<lparr>msgId = lit ''id-2'', role = Assistant, content = caption, itinerary = Some scenarioPayload\<rparr>]"
  using scenario_reply [where s = sentHome and P = samplePlatform and uuid = "lit ''id-2''"
      and uuid' = "lit ''id-3''" and ar = True]
  by (simp add: sentHome_messages numeral_3_eq_3)


section \<open>Rejected sends\<close>

lemma trim_all_ws:
  assumes "\<forall>c \<in> set t. isWhiteSpace c"
  shows "trim t = []"
proof -
  have d: "dropWhile isWhiteSpace t = []" using assms by (induction t) auto
  show ?thesis unfolding trim_def by (simp only: d rev.simps dropWhile.simps)
qed

lemma effects_same: "effects P s s = s"
  by (simp add: effects_def)


text \<open>
  Claim C3. When the input is empty or consists of white space only, or while
  a request is outstanding, \<open>send\<close> returns the state unchanged: no message
  is appended, the input and the loading flag stay, no request is issued.
\<close>

theorem send_rejected:
  assumes "(\<forall>c \<in> set (case textOverride of Some t \<Rightarrow> t | None \<Rightarrow> message s). isWhiteSpace c) \<or> loading s"
  shows "send_begin uuid textOverride s = s \<and>
         (textOverride = None \<longrightarrow> fire P (SendClicked uuid) s = s)"
proof -
  have "send_begin uuid textOverride s = s"
    using assms by (auto simp: send_begin_def Let_def trim_all_ws)
  then show ?thesis by (auto simp: fire_def effects_same)
qed

theorem send_rejected_witness:
  "list_all isWhiteSpace (message blankHome) \<and>
   send_begin (lit ''id-2'') None blankHome = blankHome \<and>
   fire samplePlatform (SendClicked (lit ''id-2'')) blankHome = blankHome \<and>
   loading sentHome \<and>
   send_begin (lit ''id-2'') (Some (lit ''Plan Oslo'')) sentHome = sentHome"
proof -
  have a: "\<forall>c \<in> set (message blankHome). isWhiteSpace c"
    by (simp add: blankHome_def isWhiteSpace_def)
  have b: "loading sentHome"
    by (simp add: sentHome_def send_begin_def initialHome_def trim_def isWhiteSpace_def lit_def Let_def)
  from send_rejected [where textOverride = None and s = blankHome and uuid = "lit ''id-2''"
         and P = samplePlatform]
       send_rejected [where textOverride = "Some (lit ''Plan Oslo'')" and s = sentHome
         and uuid = "lit ''id-2''" and P = samplePlatform] a b
  show ?thesis by (simp add: list_all_iff)
qed


section \<open>A response whose body does not parse\<close>

lemma not_itinerary_empty: "\<not> isItinerary (JObject [])"
  by (simp add: isItinerary_def)

lemma nextMsg_empty:
  "nextMsg P uuid (outputOf (JObject [])) =
   \<lparr>msgId = uuid, role = Assistant, content = JSON_stringify P (JObject []), itinerary = None\<rparr>"
  by (simp add: outputOf_def nextMsg_object [OF not_itinerary_empty])


text \<open>
  Claim C5, as stated: a response with a success status and a body that does
  not parse yields a message of role error. It yields an assistant message.
\<close>

theorem unparseable_body_counterexample:
  "last (messages (send_settle samplePlatform (lit ''id-2'') (lit ''id-3'') False
      (Response True 200 None) sentHome)) =
   \<lparr>msgId = lit ''id-2'', role = Assistant, content = lit ''{}'', itinerary = None\<rparr>"
  by (simp add: messages_settle_quiet nextMsg_empty samplePlatform_def)


text \<open>
  Claim C5, amended. For a response with a success status and a body that
  does not parse, the failure is ignored, the body counts as the empty
  object, and \<open>send\<close> appends exactly one message: an assistant message whose
  content is the serialised empty object. No exception escapes, and the
  loading flag is cleared.
\<close>

theorem unparseable_body_reply:
  "messages (send_settle P uuid uuid' ar (Response True status None) s) =
     messages s @
     [\<lparr>msgId = uuid, role = Assistant, content = JSON_stringify P (JObject []), itinerary = None\<rparr>] \<and>
   \<not> loading (send_settle P uuid uuid' ar (Response True status None) s)"
  using messages_settle_plain [where body = None and P = P and uuid = uuid and uuid' = uuid'
      and ar = ar and status = status and s = s]
  by (simp add: nextMsg_empty loading_settle)

theorem unparseable_body_reply_witness:
  "messages (send_settle samplePlatform (lit ''id-2'') (lit ''id-3'') True (Response True 200 None) sentHome) =
   [welcomeMsg,
    \<lparr>msgId = lit ''id-1'', role = User, content = lit ''Plan Rome'', itinerary = None\<rparr>,
    \<lparr>msgId = lit ''id-2'', role = Assistant, content = lit ''{}'', itinerary = None\<rparr>]"
  using unparseable_body_reply [where s = sentHome and P = samplePlatform and uuid = "lit ''id-2''"
      and uuid' = "lit ''id-3''" and ar = True and status = 200]
  by (simp add: sentHome_messages samplePlatform_def)


section \<open>A reply without an \<open>output\<close> field\<close>

text \<open>
  Claim C10. When the body of a successful response has no \<open>output\<close> (or a
  \<open>null\<close> one), the body itself is the output; so an itinerary at the top
  level is accepted and appended as a structured itinerary. A body that does
  not parse is treated as the empty object.
\<close>

theorem bare_body_is_output:
  "(getProp data (lit ''output'') = None \<or> getProp data (lit ''output'') = Some JNull \<longrightarrow>
      outputOf data = data)
   \<and> ((getProp data' (lit ''output'') = None \<or> getProp data' (lit ''output'') = Some JNull) \<and>
        isItinerary data' \<longrightarrow>
      take (Suc (length (messages s)))
        (messages (send_settle P uuid uuid' ar (Response True status (Some data')) s)) =
      messages s @
      [\<lparr>msgId = uuid, role = Assistant, content = caption, itinerary = Some data'\<rparr>])
   \<and> send_settle P uuid uuid' ar (Response True status None) s =
      send_settle P uuid uuid' ar (Response True status (Some (JObject []))) s"
proof -
  have 1: "getProp data (lit ''output'') = None \<or> getProp data (lit ''output'') = Some JNull \<Longrightarrow>
      outputOf data = data" for data
    by (auto simp: outputOf_def)
  have 2: "send_settle P uuid uuid' ar (Response True status None) s =
      send_settle P uuid uuid' ar (Response True status (Some (JObject []))) s"
    by (simp add: send_settle_def send_try_def)
  have 3: "(getProp data' (lit ''output'') = None \<or> getProp data' (lit ''output'') = Some JNull) \<and>
        isItinerary data' \<Longrightarrow>
      take (Suc (length (messages s)))
        (messages (send_settle P uuid uuid' ar (Response True status (Some data')) s)) =
      messages s @
      [\<lparr>msgId = uuid, role = Assistant, content = caption, itinerary = Some data'\<rparr>]"
    using messages_settle_ok [where body = "Some data'" and P = P and uuid = uuid and uuid' = uuid'
      and ar = ar and status = status and s = s] 1 [of data'] nextMsg_itinerary [of data' P uuid]
    by simp
  from 1 [of data] 2 3 show ?thesis by blast
qed

theorem bare_body_is_output_witness:
  "getProp scenarioPayload (lit ''output'') = None \<and> isItinerary scenarioPayload \<and>
   outputOf scenarioPayload = scenarioPayload \<and>
   take 3 (messages (send_settle samplePlatform (lit ''id-2'') (lit ''id-3'') True
      (Response True 200 (Some scenarioPayload)) sentHome)) =
   [welcomeMsg,
    \<lparr>msgId = lit ''id-1'', role = User, content = lit ''Plan Rome'', itinerary = None\<rparr>,
    \<lparr>msgId = lit ''id-2'', role = Assistant, content = caption, itinerary = Some scenarioPayload\<rparr>]"
proof -
  have a: "getProp scenarioPayload (lit ''output'') = None"
    by (simp add: scenarioPayload_def lit_def)
  from bare_body_is_output [where data = scenarioPayload and data' = scenarioPayload
      and s = sentHome and P = samplePlatform and uuid = "lit ''id-2''" and uuid' = "lit ''id-3''"
      and ar = True and status = 200] a scenario_isItinerary
  show ?thesis by (simp add: sentHome_messages numeral_3_eq_3)
qed


section \<open>Speech synthesis and the microphone\<close>

lemma keeps_trans: "keeps s s' \<Longrightarrow> keeps s' s'' \<Longrightarrow> keeps s s''"
  by (auto simp: keeps_def)

lemma keeps_speak: "keeps s (speak t s)"
  by (simp add: keeps_def speak_def)

lemma keeps_send_catch: "keeps s (send_catch uuid ar msg s)"
  by (simp add: send_catch_def Let_def keeps_def speak_def)

lemma keeps_send_try:
  "case send_try P uuid ar resp s of Inr s' \<Rightarrow> keeps s s' | Inl (e, s') \<Rightarrow> keeps s s'"
proof (cases resp)
  case (FetchFailed m)
  then show ?thesis by (simp add: send_try_def keeps_def)
next
  case (Response ok status body)
  show ?thesis
  proof (cases ok)
    case False
    with Response show ?thesis by (simp add: send_try_def keeps_def Let_def)
  next
    case True
    let ?m = "nextMsg P uuid (outputOf (case body of None \<Rightarrow> JObject [] | Some d \<Rightarrow> d))"
    from True Response show ?thesis
      by (cases "toSpeak P ?m") (simp_all add: send_try_def keeps_def Let_def)
  qed
qed

lemma keeps_send_settle: "keeps s (send_settle P uuid uuid' ar resp s)"
proof (cases "send_try P uuid ar resp s")
  case (Inl p)
  obtain e s' where p: "p = (e, s')" by (cases p)
  with Inl keeps_send_try [where P = P and uuid = uuid and ar = ar and resp = resp and s = s]
  have "keeps s s'" by simp
  with keeps_send_catch [of s' uuid' ar e] have "keeps s (send_catch uuid' ar e s')"
    using keeps_trans by blast
  with Inl p show ?thesis by (simp add: send_settle_def keeps_def)
next
  case (Inr s')
  with keeps_send_try [where P = P and uuid = uuid and ar = ar and resp = resp and s = s]
  show ?thesis by (simp add: send_settle_def keeps_def)
qed

lemma handler_fields:
  "(typingTimer (handler P e s) = typingTimer s \<or> typingTimer (handler P e s) = None) \<and>
   ttsSupported (handler P e s) = ttsSupported s \<and>
   (speaking (handler P e s) \<longrightarrow> speaking s \<or> ttsSupported s)"
proof (cases e)
  case (Settled u u' r)
  then show ?thesis
    using keeps_send_settle [of s P u u' _ r] by (auto simp: keeps_def split: option.splits)
qed (auto simp: send_begin_def toggleMic_def onend_def cancel_def scheduleSpeak_def speak_def Let_def
      split: option.splits)

lemma effects_inv:
  assumes "listening h \<Longrightarrow> (message h, autoRead h, listening h) = (message s, autoRead s, listening s) \<Longrightarrow>
           typingTimer h = None"
    and "speaking h \<longrightarrow> ttsSupported h"
  shows "speechInv (effects P s h)"
  using assms
  by (auto simp: speechInv_def effects_def readVisible_def cancel_def speak_def Let_def)

lemma fire_inv:
  assumes "speechInv s"
  shows "speechInv (fire P e s)"
  unfolding fire_def
proof (rule effects_inv)
  assume "listening (handler P e s)"
    and "(message (handler P e s), autoRead (handler P e s), listening (handler P e s)) =
         (message s, autoRead s, listening s)"
  with assms handler_fields [of P e s] show "typingTimer (handler P e s) = None"
    by (auto simp: speechInv_def)
next
  from assms handler_fields [of P e s] show "speaking (handler P e s) \<longrightarrow> ttsSupported (handler P e s)"
    by (auto simp: speechInv_def)
qed

lemma reachable_inv: "reachable P s \<Longrightarrow> speechInv s"
proof (induction rule: reachable.induct)
  case (reachable_initial tts stt)
  then show ?case by (simp add: speechInv_def initialHome_def)
next
  case (reachable_fire s e)
  then show ?case by (simp add: fire_inv)
qed

lemma reachable_run: "reachable P s \<Longrightarrow> reachable P (run P es s)"
  by (induction es arbitrary: s) (auto intro: reachable_fire)

lemma fire_PendingTimer:
  "pendingSpeak s = Some (t, d) \<Longrightarrow> fire P PendingTimer s = scheduleSpeak t s"
  by (simp add: fire_def effects_def scheduleSpeak_def speak_def Let_def)

lemma fire_RecEnd:
  "pendingSpeak (fire P RecEnd s) = None \<and>
   spoken (fire P RecEnd s) = (if ttsSupported s then spoken s @ [silentUtterance] else spoken s) \<and>
   \<not> listening (fire P RecEnd s) \<and> (ttsSupported s \<longrightarrow> \<not> speaking (fire P RecEnd s))"
  by (simp add: fire_def effects_def onend_def cancel_def Let_def)

lemma fire_ToggleMic:
  "sttSupported s \<Longrightarrow> \<not> listening s \<Longrightarrow>
   pendingSpeak (fire P ToggleMic s) = None \<and> spoken (fire P ToggleMic s) = spoken s \<and>
   listening (fire P ToggleMic s) \<and> (ttsSupported s \<longrightarrow> \<not> speaking (fire P ToggleMic s))"
  by (cases "pendingSpeak s") (auto simp: fire_def effects_def toggleMic_def cancel_def Let_def)

lemma interference_state:
  "run samplePlatform interferenceRun (initialHome True True) =
   \<lparr>messages = [welcomeMsg], message = [], loading = False, autoRead = True,
    ttsSupported = True, sttSupported = True, listening = True, readDelayAfterMic = False,
    pendingSpeak = None, typingTimer = None, speaking = True, spoken = [content welcomeMsg],
    requests = [], inflight = None\<rparr>"
  by code_simp

lemma deferred_state:
  "run samplePlatform deferredRun (initialHome True True) =
   \<lparr>messages =
      [welcomeMsg,
       \<lparr>msgId = lit ''id-1'', role = User, content = lit ''Plan Rome'', itinerary = None\<rparr>,
       \<lparr>msgId = lit ''id-2'', role = Assistant, content = lit ''Hello'', itinerary = None\<rparr>],
    message = [], loading = False, autoRead = True,
    ttsSupported = True, sttSupported = True, listening = True, readDelayAfterMic = False,
    pendingSpeak = Some (lit ''Hello'', 250), typingTimer = None, speaking = False,
    spoken = [content welcomeMsg], requests = [lit ''Plan Rome''], inflight = None\<rparr>"
  by code_simp

lemma hello_not_welcome: "lit ''Hello'' \<noteq> content welcomeMsg" "lit ''Hello'' \<noteq> silentUtterance"
  by (simp_all add: welcomeMsg_def silentUtterance_def lit_def)

lemma quiet_state:
  "run samplePlatform quietRun (initialHome True True) =
   \<lparr>messages =
      [welcomeMsg,
       \<lparr>msgId = lit ''id-1'', role = User, content = lit ''Plan Rome'', itinerary = None\<rparr>,
       \<lparr>msgId = lit ''id-2'', role = Assistant, content = lit ''Hello'', itinerary = None\<rparr>],
    message = [], loading = False, autoRead = True,
    ttsSupported = True, sttSupported = True, listening = False, readDelayAfterMic = False,
    pendingSpeak = Some (lit ''Hello'', 0), typingTimer = None, speaking = True,
    spoken = [content welcomeMsg], requests = [lit ''Plan Rome''], inflight = None\<rparr>"
  by code_simp


text \<open>
  Claim C4, as stated: speech never runs while recognition is active, and a
  read put off while recognition is active is never dropped. In the first run
  the engine speaks while the microphone is on; in the second the read that
  was put off is cancelled when the recognition session ends, and its text is
  never handed to the engine.
\<close>

theorem auto_read_counterexample:
  "listening (run samplePlatform interferenceRun (initialHome True True)) \<and>
   speaking (run samplePlatform interferenceRun (initialHome True True)) \<and>
   listening (run samplePlatform deferredRun (initialHome True True)) \<and>
   pendingSpeak (run samplePlatform deferredRun (initialHome True True)) = Some (lit ''Hello'', 250) \<and>
   pendingSpeak (fire samplePlatform RecEnd (run samplePlatform deferredRun (initialHome True True))) = None \<and>
   lit ''Hello'' \<notin> set (spoken (fire samplePlatform RecEnd
      (run samplePlatform deferredRun (initialHome True True))))"
  using fire_RecEnd [of samplePlatform "run samplePlatform deferredRun (initialHome True True)"]
  by (simp add: interference_state deferred_state hello_not_welcome)


text \<open>
  Claim C4, amended. In every reachable state: while recognition is active
  the read-as-you-type timer is not armed, and the scheduled auto-read, when
  its timer fires, does not speak but is armed again with 250 ms; when it
  fires while recognition is not active it speaks. A pending auto-read is
  cancelled without being spoken when the recognition session ends (the
  engine is handed the silent unlocking utterance only, which is cancelled at
  once) and when the microphone is started (nothing is handed to the engine);
  starting the microphone also stops the engine.
\<close>

theorem auto_read_deferred:
  assumes "reachable P s"
  shows "(listening s \<longrightarrow> typingTimer s = None)
     \<and> (listening s \<and> pendingSpeak s = Some (t, d) \<longrightarrow>
          fire P PendingTimer s = s\<lparr>pendingSpeak := Some (t, 250)\<rparr>)
     \<and> (\<not> listening s \<and> pendingSpeak s = Some (t, d) \<longrightarrow>
          fire P PendingTimer s = (speak t s)\<lparr>pendingSpeak := None\<rparr>)
     \<and> pendingSpeak (fire P RecEnd s) = None
     \<and> spoken (fire P RecEnd s) = (if ttsSupported s then spoken s @ [silentUtterance] else spoken s)
     \<and> (ttsSupported s \<longrightarrow> \<not> speaking (fire P RecEnd s))
     \<and> \<not> listening (fire P RecEnd s)
     \<and> (sttSupported s \<and> \<not> listening s \<longrightarrow>
          pendingSpeak (fire P ToggleMic s) = None \<and> spoken (fire P ToggleMic s) = spoken s \<and>
          listening (fire P ToggleMic s) \<and> \<not> speaking (fire P ToggleMic s))"
proof -
  from reachable_inv [OF assms] have inv: "listening s \<longrightarrow> typingTimer s = None"
    and tts: "speaking s \<longrightarrow> ttsSupported s"
    by (simp_all add: speechInv_def)
  have mic: "sttSupported s \<and> \<not> listening s \<longrightarrow> \<not> speaking (fire P ToggleMic s)"
    using tts by (auto simp: fire_def effects_def toggleMic_def cancel_def Let_def)
  from inv mic fire_RecEnd [of P s] fire_ToggleMic [of s P] show ?thesis
    by (auto simp: fire_PendingTimer scheduleSpeak_def)
qed

theorem auto_read_deferred_witness:
  "reachable samplePlatform (run samplePlatform deferredRun (initialHome True True)) \<and>
   listening (run samplePlatform deferredRun (initialHome True True)) \<and>
   pendingSpeak (run samplePlatform deferredRun (initialHome True True)) = Some (lit ''Hello'', 250) \<and>
   fire samplePlatform PendingTimer (run samplePlatform deferredRun (initialHome True True)) =
     run samplePlatform deferredRun (initialHome True True) \<and>
   reachable samplePlatform (run samplePlatform quietRun (initialHome True True)) \<and>
   \<not> listening (run samplePlatform quietRun (initialHome True True)) \<and>
   pendingSpeak (run samplePlatform quietRun (initialHome True True)) = Some (lit ''Hello'', 0) \<and>
   spoken (fire samplePlatform PendingTimer (run samplePlatform quietRun (initialHome True True))) =
     [content welcomeMsg, lit ''Hello''] \<and>
   pendingSpeak (fire samplePlatform ToggleMic (run samplePlatform quietRun (initialHome True True))) = None \<and>
   \<not> speaking (fire samplePlatform ToggleMic (run samplePlatform quietRun (initialHome True True))) \<and>
   pendingSpeak (fire samplePlatform RecEnd (run samplePlatform deferredRun (initialHome True True))) = None \<and>
   spoken (fire samplePlatform RecEnd (run samplePlatform deferredRun (initialHome True True))) =
     [content welcomeMsg, silentUtterance]"
proof -
  have r1: "reachable samplePlatform (run samplePlatform deferredRun (initialHome True True))"
    by (rule reachable_run [OF reachable_initial])
  have r2: "reachable samplePlatform (run samplePlatform quietRun (initialHome True True))"
    by (rule reachable_run [OF reachable_initial])
  have h: "lit ''Hello'' \<noteq> []" by (simp add: lit_def)
  from auto_read_deferred [OF r1, where t = "lit ''Hello''" and d = 250]
       auto_read_deferred [OF r2, where t = "lit ''Hello''" and d = 0] r1 r2 h
  show ?thesis
    by (simp add: deferred_state quiet_state speak_def)
qed


section \<open>The map link\<close>

text \<open>
  Claim C7, as stated: a location whose name is present gets the name-based
  link when it has no coordinates. A name that is the empty string is passed
  over for the address, and a name with an unpaired surrogate makes
  \<open>encodeURIComponent\<close> throw.
\<close>

theorem map_link_counterexample:
  "googleMapsLink wholeToString (Some placeEmptyName) =
     Inr (Some (lit ''https://www.google.com/maps/search/?api=1&query=Piazza%20del%20Colosseo'')) \<and>
   googleMapsLink wholeToString (Some placeSurrogate) = Inl URIError"
  by code_simp


text \<open>
  Claim C7, amended. With both \<open>lat\<close> and \<open>lon\<close> the link is the coordinate
  link; otherwise, with a name that is not empty and that
  \<open>encodeURIComponent\<close> accepts, it is the search link of the name; otherwise,
  with such an address, the search link of the address; otherwise there is no
  link.
\<close>

theorem map_link_precedence:
  "(lat l1 = Some la \<and> lon l1 = Some lo \<longrightarrow>
      googleMapsLink f (Some l1) =
        Inr (Some (lit ''https://maps.google.com/?q='' @ f la @ lit '','' @ f lo)))
   \<and> ((lat l2 = None \<or> lon l2 = None) \<and> name l2 = Some n \<and> n \<noteq> [] \<and>
        encodeURIComponent n = Some e \<longrightarrow>
      googleMapsLink f (Some l2) =
        Inr (Some (lit ''https://www.google.com/maps/search/?api=1&query='' @ e)))
   \<and> ((lat l3 = None \<or> lon l3 = None) \<and> (name l3 = None \<or> name l3 = Some []) \<and>
        address l3 = Some a \<and> a \<noteq> [] \<and> encodeURIComponent a = Some e' \<longrightarrow>
      googleMapsLink f (Some l3) =
        Inr (Some (lit ''https://www.google.com/maps/search/?api=1&query='' @ e')))
   \<and> ((lat l4 = None \<or> lon l4 = None) \<and> (name l4 = None \<or> name l4 = Some []) \<and>
        (address l4 = None \<or> address l4 = Some []) \<longrightarrow>
      googleMapsLink f (Some l4) = Inr None)
   \<and> googleMapsLink f None = Inr None"
  by (auto simp: googleMapsLink_def nonEmpty_def searchLink_def split: option.splits)

theorem map_link_precedence_witness:
  "googleMapsLink wholeToString (Some placeFull) = Inr (Some (lit ''https://maps.google.com/?q=41,12'')) \<and>
   googleMapsLink wholeToString (Some placeNamed) =
     Inr (Some (lit ''https://www.google.com/maps/search/?api=1&query=Colosseum'')) \<and>
   googleMapsLink wholeToString (Some placeAddressed) =
     Inr (Some (lit ''https://www.google.com/maps/search/?api=1&query=Piazza%20del%20Colosseo'')) \<and>
   googleMapsLink wholeToString (Some placeBare) = Inr None \<and>
   googleMapsLink wholeToString None = Inr None"
proof -
  have n: "encodeURIComponent (lit ''Colosseum'') = Some (lit ''Colosseum'')"
    by code_simp
  have a: "encodeURIComponent (lit ''Piazza del Colosseo'') = Some (lit ''Piazza%20del%20Colosseo'')"
    by code_simp
  have w: "wholeToString (Dec False 41 0) = lit ''41''" "wholeToString (Dec False 12 0) = lit ''12''"
    by code_simp+
  from map_link_precedence [where ?l1.0 = placeFull and la = "Dec False 41 0" and lo = "Dec False 12 0"
      and ?l2.0 = placeNamed and n = "lit ''Colosseum''" and e = "lit ''Colosseum''"
      and ?l3.0 = placeAddressed and a = "lit ''Piazza del Colosseo''"
      and e' = "lit ''Piazza%20del%20Colosseo''" and ?l4.0 = placeBare and f = wholeToString] n a w
  show ?thesis
    by (simp add: placeFull_def placeNamed_def placeAddressed_def placeBare_def lit_def)
qed


section \<open>Day navigation\<close>

lemma click_range:
  "days \<noteq> [] \<Longrightarrow> 0 \<le> i \<Longrightarrow> i \<le> int (length days) - 1 \<Longrightarrow>
   0 \<le> click days n i \<and> click days n i \<le> int (length days) - 1"
  by (cases n) (auto simp: prevUpdater_def nextUpdater_def prevDisabled_def nextDisabled_def)

lemma clicks_range:
  "days \<noteq> [] \<Longrightarrow> 0 \<le> i \<Longrightarrow> i \<le> int (length days) - 1 \<Longrightarrow>
   0 \<le> clicks days ns i \<and> clicks days ns i \<le> int (length days) - 1"
proof (induction ns arbitrary: i)
  case Nil
  then show ?case by simp
next
  case (Cons n ns)
  from click_range [OF Cons.prems] Cons.IH [OF Cons.prems(1)] show ?case by simp
qed

lemma click_empty: "click [] n 0 = 0"
  by (cases n) (simp_all add: prevDisabled_def nextDisabled_def)

lemma clicks_empty: "clicks [] ns 0 = 0"
  by (induction ns) (simp_all add: click_empty)


text \<open>
  Claim C8, as stated: for every itinerary with \<open>D\<close> days the index lies in
  \<open>[0, D-1]\<close>. An itinerary with no days is accepted, and its index 0 does not.
\<close>

theorem day_index_counterexample:
  "\<not> (0 \<le> dayIndex0 \<and> dayIndex0 \<le> int (length ([] :: json list)) - 1)"
  by (simp add: dayIndex0_def)


text \<open>
  Claim C8, amended. For an itinerary with at least one day the index starts
  at 0 and stays in \<open>[0, D-1]\<close> under every sequence of clicks; Prev at 0 and
  Next at \<open>D-1\<close> change nothing, and elsewhere they subtract and add one. For
  an itinerary with no days the index stays 0.
\<close>

theorem day_navigation_clamped:
  "(days \<noteq> [] \<longrightarrow>
      0 \<le> clicks days ns dayIndex0 \<and> clicks days ns dayIndex0 \<le> int (length days) - 1 \<and>
      click days Prev 0 = 0 \<and>
      click days Next (int (length days) - 1) = int (length days) - 1 \<and>
      (0 < i \<and> i \<le> int (length days) - 1 \<longrightarrow> click days Prev i = i - 1) \<and>
      (0 \<le> i \<and> i < int (length days) - 1 \<longrightarrow> click days Next i = i + 1))
   \<and> clicks ([] :: 'a list) ns' dayIndex0 = 0"
proof -
  have "days \<noteq> [] \<Longrightarrow> 0 \<le> clicks days ns dayIndex0 \<and> clicks days ns dayIndex0 \<le> int (length days) - 1"
    using clicks_range [of days 0 ns] by (cases days) (auto simp: dayIndex0_def)
  then show ?thesis
    by (auto simp: clicks_empty dayIndex0_def prevUpdater_def nextUpdater_def prevDisabled_def nextDisabled_def)
qed

theorem day_navigation_clamped_witness:
  "[scenarioDay, scenarioDay, scenarioDay] \<noteq> [] \<and>
   clicks [scenarioDay, scenarioDay, scenarioDay] [Prev, Next, Next, Next, Prev] dayIndex0 = 1 \<and>
   click [scenarioDay, scenarioDay, scenarioDay] Prev 0 = 0 \<and>
   click [scenarioDay, scenarioDay, scenarioDay] Next 2 = 2 \<and>
   (0 < (1::int) \<and> (1::int) \<le> 2) \<and> click [scenarioDay, scenarioDay, scenarioDay] Prev 1 = 0 \<and>
   click [scenarioDay, scenarioDay, scenarioDay] Next 1 = 2 \<and>
   clicks ([] :: json list) [Next, Prev] dayIndex0 = 0"
  using day_navigation_clamped [where days = "[scenarioDay, scenarioDay, scenarioDay]"
      and ns = "[Prev, Next, Next, Next, Prev]" and i = 1 and ns' = "[Next, Prev]"]
  by (simp add: dayIndex0_def prevUpdater_def nextUpdater_def prevDisabled_def nextDisabled_def)


section \<open>The image carousel\<close>

lemma safeIndex_mod:
  assumes "imgs \<noteq> []"
  shows "safeIndex imgs n = n mod int (length imgs)"
proof -
  let ?N = "int (length imgs)"
  have N: "0 < ?N" using assms by simp
  have r: "- ?N < jsRem n ?N \<and> jsRem n ?N < ?N \<and> jsRem n ?N mod ?N = n mod ?N"
  proof (cases "0 \<le> n")
    case True
    have "0 \<le> n mod ?N" "n mod ?N < ?N" using N by simp_all
    with True show ?thesis
      by (auto simp: jsRem_def sgn_if)
  next
    case False
    then have "jsRem n ?N = - ((- n) mod ?N)" by (simp add: jsRem_def sgn_if)
    moreover have "0 \<le> (- n) mod ?N" "(- n) mod ?N < ?N" using N by simp_all
    moreover have "(- ((- n) mod ?N)) mod ?N = n mod ?N"
      by (metis minus_minus mod_minus_eq)
    ultimately show ?thesis by simp
  qed
  then have pos: "0 < jsRem n ?N + ?N" by simp
  have "safeIndex imgs n = (jsRem n ?N + ?N) mod ?N"
    using assms pos by (simp add: safeIndex_def jsRem_def [of "jsRem n ?N + ?N"] sgn_if)
  also have "\<dots> = n mod ?N" using r by simp
  finally show ?thesis .
qed


text \<open>
  Claim C9. For a gallery of \<open>N > 0\<close> images, Prev from index 0 gives \<open>N-1\<close>
  and Next from \<open>N-1\<close> gives 0; the displayed index is in \<open>[0, N-1]\<close> for every
  stored index, so the image shown exists. For an empty gallery no image is
  looked up and the placeholder is shown.
\<close>

theorem carousel_wraps:
  "(imgs \<noteq> [] \<longrightarrow>
      prevImage imgs 0 = int (length imgs) - 1 \<and>
      nextImage imgs (int (length imgs) - 1) = 0 \<and>
      0 \<le> safeIndex imgs n \<and> safeIndex imgs n \<le> int (length imgs) - 1 \<and>
      picture imgs n = Gallery (Some (imgs ! nat (safeIndex imgs n))) \<and>
      nat (safeIndex imgs n) < length imgs)
   \<and> picture [] n = Placeholder"
proof -
  have ph: "picture [] n = Placeholder" by (simp add: picture_def)
  {
    assume ne: "imgs \<noteq> []"
    let ?N = "int (length imgs)"
    have N: "0 < ?N" using ne by simp
    have lo: "0 \<le> safeIndex imgs n" and hi: "safeIndex imgs n < ?N"
      using N by (simp_all add: safeIndex_mod [OF ne])
    have p: "prevImage imgs 0 = ?N - 1"
      using N by (simp add: prevImage_def safeIndex_mod [OF ne] zmod_minus1)
    have q: "nextImage imgs (?N - 1) = 0"
      by (simp add: nextImage_def safeIndex_mod [OF ne])
    have pic: "picture imgs n = Gallery (Some (imgs ! nat (safeIndex imgs n)))"
      using ne lo hi by (simp add: picture_def element_def)
    have "prevImage imgs 0 = ?N - 1 \<and> nextImage imgs (?N - 1) = 0 \<and>
          0 \<le> safeIndex imgs n \<and> safeIndex imgs n \<le> ?N - 1 \<and>
          picture imgs n = Gallery (Some (imgs ! nat (safeIndex imgs n))) \<and>
          nat (safeIndex imgs n) < length imgs"
      using p q lo hi pic by auto
  }
  with ph show ?thesis by blast
qed

theorem carousel_wraps_witness:
  "[lit ''a.png'', lit ''b.png'', lit ''c.png''] \<noteq> [] \<and>
   prevImage [lit ''a.png'', lit ''b.png'', lit ''c.png''] 0 = 2 \<and>
   nextImage [lit ''a.png'', lit ''b.png'', lit ''c.png''] 2 = 0 \<and>
   safeIndex [lit ''a.png'', lit ''b.png'', lit ''c.png''] (- 4) = 2 \<and>
   picture [lit ''a.png'', lit ''b.png'', lit ''c.png''] (- 4) = Gallery (Some (lit ''c.png'')) \<and>
   picture [] (- 4) = Placeholder"
proof -
  have s: "safeIndex [lit ''a.png'', lit ''b.png'', lit ''c.png''] (- 4) = 2"
    by (simp add: safeIndex_def jsRem_def)
  from carousel_wraps [where imgs = "[lit ''a.png'', lit ''b.png'', lit ''c.png'']" and n = "- 4"] s
  show ?thesis by simp
qed


end
